theory Spec2Isabelle
  imports Complex_Main "HOL-Library.Multiset" "HOL-Library.Char_ord" "HOL-Library.List_Lexorder"
    "HOL-Library.Product_Lexorder"
begin

section \<open>Range partitioning: \<open>_get_oid_ranges_for_input\<close>\<close>

text \<open>
  The loop of \<open>ParallelODCalculator._get_oid_ranges_for_input\<close> carries three local
  variables: the list \<open>ranges\<close> of finished chunks, the counter \<open>num_in_range\<close> and
  the two-element list \<open>current_range\<close>, whose reset value \<open>[0, 0]\<close> doubles as the
  marker for "no range is open". ObjectIDs and the counter are Python integers.
\<close>

record oid_loop =
  ranges :: "(int \<times> int) list"
  num_in_range :: int
  current_range :: "int \<times> int"

text \<open>
  \<open>arcpy.da.SearchCursor(input_fc, "OID@", where)\<close> is the routing engine's row
  enumeration: it yields the ObjectIDs of the rows of \<open>input_fc\<close> that satisfy the where
  clause, in table order. The table is given by its ObjectID column and the where clause by
  the predicate it denotes.
\<close>

definition SearchCursor :: "int list \<Rightarrow> (int \<Rightarrow> bool) \<Rightarrow> int list" where
  "SearchCursor input_fc where_clause = filter where_clause input_fc"

text \<open>
  One iteration of the \<open>for row in SearchCursor(...)\<close> loop. A new range starts when the
  counter is zero; the counter is incremented and the upper end set to the current ObjectID;
  when the counter reaches \<open>max_chunk_size\<close> the range is appended and the trackers reset.
\<close>

definition oid_step :: "int \<Rightarrow> oid_loop \<Rightarrow> int \<Rightarrow> oid_loop" where
  "oid_step max_chunk_size s oid =
     (let low = (if num_in_range s = 0 then oid else fst (current_range s));
          n = num_in_range s + 1;
          cur = (low, oid)
      in if n = max_chunk_size
         then \<lparr>ranges = ranges s @ [cur], num_in_range = 0, current_range = (0, 0)\<rparr>
         else \<lparr>ranges = ranges s, num_in_range = n, current_range = cur\<rparr>)"

definition oid_init :: oid_loop where
  "oid_init = \<lparr>ranges = [], num_in_range = 0, current_range = (0, 0)\<rparr>"

text \<open>
  After the loop the last range is closed if \<open>current_range != [0, 0]\<close>.
\<close>

definition get_oid_ranges_for_input ::
  "int list \<Rightarrow> int \<Rightarrow> (int \<Rightarrow> bool) \<Rightarrow> (int \<times> int) list" where
  "get_oid_ranges_for_input input_fc max_chunk_size where_clause =
     (let s = foldl (oid_step max_chunk_size) oid_init (SearchCursor input_fc where_clause)
      in if current_range s \<noteq> (0, 0) then ranges s @ [current_range s] else ranges s)"

subsection \<open>Vocabulary for stating the partitioning properties\<close>

text \<open>
  The \<open>i\<close>-th full chunk of \<open>k\<close> surviving identifiers and the final partial chunk,
  read off the surviving sequence by position.
\<close>

definition full_range :: "int list \<Rightarrow> nat \<Rightarrow> nat \<Rightarrow> int \<times> int" where
  "full_range xs k i = (xs ! (i * k), xs ! (i * k + k - 1))"

definition tail_range :: "int list \<Rightarrow> nat \<Rightarrow> int \<times> int" where
  "tail_range xs k = (xs ! (length xs - length xs mod k), last xs)"

text \<open>
  An inclusive range \<open>[low, high]\<close> contains \<open>x\<close>; the number of surviving identifiers
  inside a range; a list of ranges covers every surviving identifier.
\<close>

definition in_range :: "int \<times> int \<Rightarrow> int \<Rightarrow> bool" where
  "in_range r x \<longleftrightarrow> fst r \<le> x \<and> x \<le> snd r"

definition count_in :: "int list \<Rightarrow> int \<times> int \<Rightarrow> nat" where
  "count_in xs r = length (filter (in_range r) xs)"

definition covers :: "(int \<times> int) list \<Rightarrow> int list \<Rightarrow> bool" where
  "covers rs xs \<longleftrightarrow> (\<forall>x \<in> set xs. \<exists>r \<in> set rs. in_range r x)"

text \<open>
  The least number of chunks of at most \<open>k\<close> elements for \<open>n\<close> elements, and the
  range spanned by the \<open>i\<close>-th such chunk.
\<close>

definition num_chunks :: "nat \<Rightarrow> nat \<Rightarrow> nat" where
  "num_chunks n k = (n + k - 1) div k"

definition chunk_range :: "int list \<Rightarrow> nat \<Rightarrow> nat \<Rightarrow> int \<times> int" where
  "chunk_range xs k i = (xs ! (i * k), xs ! (min (Suc i * k) (length xs) - 1))"

text \<open>
  The ranges the docstring describes: all full chunks, then the final partial chunk when
  the number of surviving identifiers is not a multiple of the chunk size.
\<close>

definition expected_ranges :: "int list \<Rightarrow> nat \<Rightarrow> (int \<times> int) list" where
  "expected_ranges xs k =
     map (full_range xs k) [0..<length xs div k] @
     (if length xs mod k = 0 then [] else [tail_range xs k])"

section \<open>Strings, paths and log records\<close>

text \<open>
  Python's \<open>str\<close> of an integer, as the f-strings of the source use it: decimal digits,
  with a leading minus sign for a negative number.
\<close>

definition digit :: "nat \<Rightarrow> char" where
  "digit n = ''0123456789'' ! n"

function str_nat :: "nat \<Rightarrow> string" where
  "str_nat n = (if n < 10 then [digit n] else str_nat (n div 10) @ [digit (n mod 10)])"
  by pat_completeness auto
termination
  by (relation "measure id") auto

declare str_nat.simps [simp del]

definition str_int :: "int \<Rightarrow> string" where
  "str_int i = (if i < 0 then CHR ''-'' # str_nat (nat (- i)) else str_nat (nat i))"

text \<open>\<open>str.startswith\<close> and \<open>sep.join(parts)\<close>.\<close>

definition startswith :: "string \<Rightarrow> string \<Rightarrow> bool" where
  "startswith s p \<longleftrightarrow> take (length p) s = p"

fun join :: "string \<Rightarrow> string list \<Rightarrow> string" where
  "join sep [] = []"
| "join sep [s] = s"
| "join sep (s # t # ts) = s @ sep @ join sep (t # ts)"

text \<open>
  \<open>datetime.strftime("%Y%m%d_%H%M%S")\<close>: the fields of the departure time, zero-padded to
  four and two digits.
\<close>

record datetime =
  year :: nat
  month :: nat
  day :: nat
  hour :: nat
  minute :: nat
  second :: nat

definition zfill :: "nat \<Rightarrow> string \<Rightarrow> string" where
  "zfill w s = replicate (w - length s) CHR ''0'' @ s"

definition strftime :: "datetime \<Rightarrow> string" where
  "strftime t =
     zfill 4 (str_nat (year t)) @ zfill 2 (str_nat (month t)) @ zfill 2 (str_nat (day t)) @ ''_''
     @ zfill 2 (str_nat (hour t)) @ zfill 2 (str_nat (minute t)) @ zfill 2 (str_nat (second t))"

text \<open>
  \<open>os.path.join\<close> and \<open>os.path.basename\<close> for a folder and a plain file name. The
  separators are the slash and the backslash (character 0x5C); \<open>join\<close> inserts a backslash
  unless the folder is empty or already ends in a separator or a colon, and \<open>basename\<close> is
  what follows the last separator.
\<close>

definition is_sep :: "char \<Rightarrow> bool" where
  "is_sep c \<longleftrightarrow> c = CHR ''/'' \<or> c = CHR 0x5C"

definition os_path_join :: "string \<Rightarrow> string \<Rightarrow> string" where
  "os_path_join folder name =
     (if folder = [] \<or> is_sep (last folder) \<or> last folder = CHR '':'' then folder @ name
      else folder @ [CHR 0x5C] @ name)"

definition basename :: "string \<Rightarrow> string" where
  "basename p = rev (takeWhile (\<lambda>c. \<not> is_sep c) (rev p))"

text \<open>
  A logger is the list of the records passed to it, oldest first, each with the severity
  of the call (\<open>logger.debug\<close>, \<open>.info\<close>, \<open>.warning\<close>, \<open>.error\<close>).
\<close>

datatype level = DEBUG | INFO | WARNING | ERROR

type_synonym log = "(level \<times> string) list"

section \<open>Solving one chunk: \<open>ODCostMatrix.solve\<close>\<close>

datatype ODTool = CalculateAccessibilityMatrix | CalculateTravelTimeStatistics

text \<open>
  The keyword arguments \<open>od_inputs\<close> that \<open>ParallelODCalculator\<close> builds and every
  \<open>ODCostMatrix\<close> is initialised from; only the entries read below are kept.
\<close>

record inputs =
  tool :: ODTool
  scratch_folder :: string
  od_output_location :: string

text \<open>The dictionary \<open>job_result\<close> prepared by \<open>ODCostMatrix.__init__\<close>.\<close>

record job_result =
  jobId :: string
  solveSucceeded :: bool
  solveMessages :: string
  outputLines :: string
  logFile :: string

record ODCostMatrix =
  kwargs :: inputs
  job_id :: string
  log_file :: string
  job_result :: job_result
  logger :: log

definition ODCostMatrix_init :: "inputs \<Rightarrow> string \<Rightarrow> ODCostMatrix" where
  "ODCostMatrix_init ins uuid =
     (let lf = os_path_join (scratch_folder ins) (''ODCostMatrix_'' @ uuid @ ''.log'') in
      \<lparr>kwargs = ins, job_id = uuid, log_file = lf,
       job_result = \<lparr>jobId = uuid, solveSucceeded = False, solveMessages = [],
                     outputLines = [], logFile = lf\<rparr>,
       logger = []\<rparr>)"

text \<open>
  What the routing engine hands back from \<open>od_solver.solve()\<close>: the success flag, the texts
  of its messages (\<open>msg[-1]\<close> of each) and the rows of its Lines output as
  (OriginOID, DestinationOID, Total_Time).
\<close>

record solve_result =
  engine_succeeded :: bool
  solverMessages :: "string list"
  Lines :: "(int \<times> int \<times> rat) list"

text \<open>
  A result file holds the rows written for the tool's \<open>output_fields\<close>: the two ObjectIDs
  for the accessibility tool, and the travel time as well for the travel time tool. The
  scratch storage maps a path to the file written there.
\<close>

datatype od_lines_file =
    PairRows "(int \<times> int) list"
  | TimeRows "(int \<times> int \<times> rat) list"

type_synonym storage = "string \<Rightarrow> od_lines_file option"

definition USE_ARROW :: bool where
  "USE_ARROW = False"

definition common_msg_prefix :: string where
  "common_msg_prefix = ''No \"Destinations\" found for ''"

text \<open>
  The handling of the solver messages: the repetitive messages are removed, one summary
  line takes their place, and the rest is joined with newlines.
\<close>

definition consolidate :: "string list \<Rightarrow> string list" where
  "consolidate solve_msgs =
     (let initial_num_msgs = length solve_msgs;
          kept = filter (\<lambda>msg. \<not> startswith msg common_msg_prefix) solve_msgs;
          num_msgs_removed = initial_num_msgs - length kept
      in if num_msgs_removed \<noteq> 0
         then kept @ [''No destinations were found for '' @ str_nat num_msgs_removed @ '' origins.'']
         else kept)"

definition out_filename :: "int \<times> int \<Rightarrow> int \<times> int \<Rightarrow> datetime \<Rightarrow> string" where
  "out_filename origins_criteria destinations_criteria time_of_day =
     ''ODLines_O_'' @ str_int (fst origins_criteria) @ ''_'' @ str_int (snd origins_criteria) @ ''_''
     @ ''D_'' @ str_int (fst destinations_criteria) @ ''_'' @ str_int (snd destinations_criteria) @ ''_''
     @ ''T_'' @ strftime time_of_day"

definition export_rows :: "ODTool \<Rightarrow> (int \<times> int \<times> rat) list \<Rightarrow> od_lines_file" where
  "export_rows t rows =
     (case t of
        CalculateAccessibilityMatrix \<Rightarrow> PairRows (map (\<lambda>(o_id, d_id, _). (o_id, d_id)) rows)
      | CalculateTravelTimeStatistics \<Rightarrow> TimeRows rows)"

definition add_log :: "level \<Rightarrow> string \<Rightarrow> ODCostMatrix \<Rightarrow> ODCostMatrix" where
  "add_log lv msg self = self\<lparr>logger := logger self @ [(lv, msg)]\<rparr>"

text \<open>
  \<open>ODCostMatrix.solve\<close> from the point where the engine has returned \<open>solve_result\<close>.
  Selecting and loading the inputs and the engine's own run lie before it, and the records
  they write to the log of the process are left out, as is the record of the elapsed time.
  The messages are logged and consolidated and stored in \<open>job_result\<close>; on a failed solve
  the method returns at once; otherwise \<open>solveSucceeded\<close> is set, the rows are written to
  the file named after the chunk, and \<open>outputLines\<close> records its path.
\<close>

definition solve ::
  "ODCostMatrix \<Rightarrow> storage \<Rightarrow> solve_result \<Rightarrow> int \<times> int \<Rightarrow> int \<times> int \<Rightarrow> datetime
     \<Rightarrow> ODCostMatrix \<times> storage" where
  "solve self files sr origins_criteria destinations_criteria time_of_day =
     (let solve_msgs = solverMessages sr;
          self1 = self\<lparr>logger := logger self @ map (Pair DEBUG) solve_msgs\<rparr>;
          self2 = (if length solve_msgs - length (filter (\<lambda>msg. \<not> startswith msg common_msg_prefix) solve_msgs) \<noteq> 0
                   then add_log DEBUG (''Repetitive messages starting with '' @ common_msg_prefix
                                       @ '' were consolidated.'') self1
                   else self1);
          self3 = self2\<lparr>job_result := (job_result self2)
                           \<lparr>solveMessages := join [CHR 0x0A] (consolidate solve_msgs)\<rparr>\<rparr>
      in if \<not> engine_succeeded sr then (add_log DEBUG ''Solve failed.'' self3, files)
         else
           let self4 = add_log DEBUG ''Solve succeeded.'' self3;
               self5 = self4\<lparr>job_result := (job_result self4)\<lparr>solveSucceeded := True\<rparr>\<rparr>;
               name = out_filename origins_criteria destinations_criteria time_of_day;
               self6 = add_log DEBUG ''Logging OD Cost Matrix results...'' self5;
               output_od_lines = os_path_join (od_output_location (kwargs self6))
                                   (name @ (if USE_ARROW then ''.at'' else ''.csv''));
               self7 = add_log DEBUG (''Saving OD cost matrix Lines output to ''
                          @ (if USE_ARROW then ''Apache Arrow'' else ''CSV'') @ '' as ''
                          @ output_od_lines @ ''.'') self6;
               files' = files(output_od_lines \<mapsto> export_rows (tool (kwargs self7)) (Lines sr));
               self8 = self7\<lparr>job_result := (job_result self7)\<lparr>outputLines := output_od_lines\<rparr>\<rparr>
           in (add_log DEBUG ''Finished calculating OD cost matrix.'' self8, files'))"

text \<open>
  \<open>solve_od_cost_matrix\<close>, the function a worker process runs: build the solver object,
  solve the chunk, return \<open>job_result\<close>. The log of the process stays in the process; the
  record of the start of the job is left out with it.
\<close>

definition solve_od_cost_matrix ::
  "inputs \<Rightarrow> string \<Rightarrow> storage \<Rightarrow> solve_result \<Rightarrow> (int \<times> int) \<times> (int \<times> int) \<times> datetime
     \<Rightarrow> job_result \<times> storage" where
  "solve_od_cost_matrix ins uuid files sr chunk =
     (let odcm = ODCostMatrix_init ins uuid;
          (odcm', files') = solve odcm files sr (fst chunk) (fst (snd chunk)) (snd (snd chunk))
      in (job_result odcm', files'))"

section \<open>The calculator and the data it works on\<close>

text \<open>
  An exception is its class name together with the lines
  \<open>traceback.format_exc().splitlines()\<close> gives for it.
\<close>

datatype exn = Raised (exc_class: string) (traceback_lines: "string list")

text \<open>
  Numeric cells of a pandas column: floating-point rounding is left out (a finite value is
  an exact rational), the special values are kept.
\<close>

datatype cell = Num rat | NaN | PosInf | NegInf

text \<open>
  The attributes of \<open>ParallelODCalculator\<close> the scheduler and the two aggregators read.
  \<open>tool\<close>, \<open>scratch_folder\<close> and \<open>od_output_location\<close> are the entries of \<open>od_inputs\<close>.
\<close>

record ParallelODCalculator =
  od_inputs :: inputs
  origins :: string
  weight_field :: string
  start_times :: "datetime list"
  origin_ranges :: "(int \<times> int) list"
  od_line_files :: "string list"
  total_jobs :: nat
  out_csv_file :: string

text \<open>
  A feature is its ObjectID and the values of its numeric fields (\<open>None\<close> for null). The
  data outside the process: the rows of the Origins and Destinations tables, the result
  files in the output folder, the statistics fields once they are written onto Origins, the
  output CSV file (header and rows), the main logger, and the order of file accesses.
\<close>

type_synonym feature = "int \<times> (string \<Rightarrow> rat option)"

record stats_row =
  OriginOID :: int
  DestinationOID :: int
  t_count :: nat
  t_min :: rat
  t_max :: rat
  t_mean :: rat

datatype io_event = ReadCsv string | RemoveFile string | CreateCsv string | AppendCsv string

record world =
  origins_rows :: "int list"
  destinations_rows :: "feature list"
  result_files :: storage
  origins_fields :: "(int \<times> (string \<times> cell) list) list option"
  out_csv :: "(string list \<times> stats_row list) option"
  LOGGER :: log
  io_trace :: "io_event list"

definition log_main :: "level \<Rightarrow> string \<Rightarrow> world \<Rightarrow> world" where
  "log_main lv msg w = w\<lparr>LOGGER := LOGGER w @ [(lv, msg)]\<rparr>"

section \<open>Accessibility statistics: \<open>_calculate_accessibility_matrix_outputs\<close>\<close>

text \<open>
  \<open>df.groupby(key).sum()\<close> on rows of (key, value): one row per distinct key, keys in
  ascending order, the values of the key's rows added up.
\<close>

definition groupby_sum :: "('k::linorder \<times> 'v::comm_monoid_add) list \<Rightarrow> ('k \<times> 'v) list" where
  "groupby_sum rows =
     map (\<lambda>k. (k, sum_list (map snd (filter (\<lambda>r. fst r = k) rows)))) (sort (remdups (map fst rows)))"

text \<open>
  \<open>pd.read_csv(od_file, dtype={"OriginOID": int, "DestinationOID": int})\<close>: the two key
  columns of a result file. A missing file raises.
\<close>

definition read_pairs :: "storage \<Rightarrow> string \<Rightarrow> exn + (int \<times> int) list" where
  "read_pairs files od_file =
     (case files od_file of
        None \<Rightarrow> Inl (Raised ''FileNotFoundError'' [])
      | Some (PairRows rows) \<Rightarrow> Inr rows
      | Some (TimeRows rows) \<Rightarrow> Inr (map (\<lambda>(o_id, d_id, _). (o_id, d_id)) rows))"

fun read_all :: "(string \<Rightarrow> exn + 'a) \<Rightarrow> string list \<Rightarrow> exn + 'a list" where
  "read_all rd [] = Inr []"
| "read_all rd (f # fs) =
     (case rd f of
        Inl e \<Rightarrow> Inl e
      | Inr rows \<Rightarrow> (case read_all rd fs of Inl e \<Rightarrow> Inl e | Inr rest \<Rightarrow> Inr (rows # rest)))"

text \<open>
  The body of \<open>for od_file in self.od_line_files\<close>: every row of the file counts once; the
  first file initialises \<open>result_df\<close> as it is, every later one is concatenated and the
  counts are summed per (OriginOID, DestinationOID).
\<close>

definition add_file ::
  "((int \<times> int) \<times> int) list option \<Rightarrow> (int \<times> int) list \<Rightarrow> ((int \<times> int) \<times> int) list option" where
  "add_file result_df rows =
     (let df = map (\<lambda>k. (k, 1)) rows in
      case result_df of
        None \<Rightarrow> Some df
      | Some acc \<Rightarrow> Some (groupby_sum (acc @ df)))"

text \<open>
  The weights. With a weight field, the field is read from every destination, the total is
  the sum of its values (nulls skipped), and each result row gets the weight of its
  destination by a join on the ObjectID (a unique key); without one, every row weighs 1 and
  the total is the number of destinations. A row is then (OriginOID, TimesReached, Weight).
\<close>

definition skipna :: "rat option \<Rightarrow> rat" where
  "skipna v = (case v of None \<Rightarrow> 0 | Some x \<Rightarrow> x)"

definition w_df :: "ParallelODCalculator \<Rightarrow> world \<Rightarrow> (int \<times> rat option) list" where
  "w_df self w = map (\<lambda>(oid, attrs). (oid, attrs (weight_field self))) (destinations_rows w)"

definition total_dests :: "ParallelODCalculator \<Rightarrow> world \<Rightarrow> rat" where
  "total_dests self w =
     (if weight_field self \<noteq> [] then sum_list (map (skipna \<circ> snd) (w_df self w))
      else of_nat (length (destinations_rows w)))"

definition Weight :: "ParallelODCalculator \<Rightarrow> world \<Rightarrow> int \<Rightarrow> rat option" where
  "Weight self w d_id =
     (if weight_field self \<noteq> []
      then (case map_of (w_df self w) d_id of None \<Rightarrow> None | Some v \<Rightarrow> v)
      else Some 1)"

definition join_weights ::
  "ParallelODCalculator \<Rightarrow> world \<Rightarrow> ((int \<times> int) \<times> int) list \<Rightarrow> (int \<times> int \<times> rat option) list" where
  "join_weights self w result_df =
     map (\<lambda>((o_id, d_id), times). (o_id, times, Weight self w d_id)) result_df"

text \<open>
  \<open>result_df[cond].groupby("OriginOID")["Weight"].sum()\<close>: the series of summed weights
  (NaN skipped) per origin that has a row satisfying the condition on TimesReached.
\<close>

definition weight_sum_by_origin ::
  "(int \<times> int \<times> rat option) list \<Rightarrow> (int \<Rightarrow> bool) \<Rightarrow> (int \<times> rat) list" where
  "weight_sum_by_origin result_df cond =
     groupby_sum (map (\<lambda>(o_id, times, wt). (o_id, skipna wt))
                    (filter (\<lambda>(o_id, times, wt). cond times) result_df))"

text \<open>
  \<open>output_df\<close>: its index (the distinct origins of the results) and its columns in order,
  each a value per index label. Assigning a series aligns it on the index, with NaN where
  the series has no entry.
\<close>

record output_df =
  df_index :: "int list"
  df_columns :: "(string \<times> (int \<Rightarrow> cell)) list"

definition aligned :: "(int \<times> rat) list \<Rightarrow> int \<Rightarrow> cell" where
  "aligned series oid = (case map_of series oid of None \<Rightarrow> NaN | Some v \<Rightarrow> Num v)"

text \<open>\<open>100.0 * column / total_dests\<close> on one cell.\<close>

fun cell_perc :: "cell \<Rightarrow> rat \<Rightarrow> cell" where
  "cell_perc (Num v) denom =
     (if denom = 0 then (if v = 0 then NaN else if 0 < v then PosInf else NegInf)
      else Num (100 * v / denom))"
| "cell_perc NaN denom = NaN"
| "cell_perc PosInf denom = (if denom < 0 then NegInf else PosInf)"
| "cell_perc NegInf denom = (if denom < 0 then PosInf else NegInf)"

fun fillna0 :: "cell \<Rightarrow> cell" where
  "fillna0 NaN = Num 0"
| "fillna0 c = c"

definition percs :: "nat list" where
  "percs = [10, 20, 30, 40, 50, 60, 70, 80, 90]"

definition total_field :: "nat \<Rightarrow> string" where
  "total_field perc = ''DsAL'' @ str_nat perc @ ''Perc''"

definition perc_field :: "nat \<Rightarrow> string" where
  "perc_field perc = ''PsAL'' @ str_nat perc @ ''Perc''"

definition threshold :: "ParallelODCalculator \<Rightarrow> nat \<Rightarrow> rat" where
  "threshold self perc = of_nat (length (start_times self)) * of_nat perc / 100"

text \<open>
  One round of \<open>for perc in range(10, 100, 10)\<close>: the two field names are appended to
  \<open>field_defs\<close> and the two columns to \<open>output_df\<close> (the field types are left out).
\<close>

definition add_perc ::
  "ParallelODCalculator \<Rightarrow> (int \<times> int \<times> rat option) list \<Rightarrow> rat
     \<Rightarrow> string list \<times> output_df \<Rightarrow> nat \<Rightarrow> string list \<times> output_df" where
  "add_perc self result_df denom st perc =
     (let field_defs = fst st @ [total_field perc, perc_field perc];
          col = aligned (weight_sum_by_origin result_df (\<lambda>times. threshold self perc \<le> of_int times));
          df = snd st
      in (field_defs,
          df\<lparr>df_columns := df_columns df
                @ [(total_field perc, col), (perc_field perc, \<lambda>oid. cell_perc (col oid) denom)]\<rparr>))"

text \<open>\<open>output_df.loc[oid].to_list()\<close>; a label outside the index raises \<open>KeyError\<close>.\<close>

definition loc :: "output_df \<Rightarrow> int \<Rightarrow> exn + cell list" where
  "loc df oid =
     (if oid \<in> set (df_index df) then Inr (map (\<lambda>(name, col). col oid) (df_columns df))
      else Inl (Raised ''KeyError'' []))"

text \<open>
  The statistics: \<open>TotalDests\<close> and \<open>PercDests\<close>, then the nine pairs of threshold columns,
  then \<open>fillna(0)\<close>.
\<close>

definition build_output ::
  "ParallelODCalculator \<Rightarrow> (int \<times> int \<times> rat option) list \<Rightarrow> rat \<Rightarrow> string list \<times> output_df" where
  "build_output self result_df denom =
     (let unique = remdups (map fst result_df);
          tot = aligned (weight_sum_by_origin result_df (\<lambda>times. 0 < times));
          df0 = \<lparr>df_index = unique,
                 df_columns = [(''TotalDests'', tot), (''PercDests'', \<lambda>oid. cell_perc (tot oid) denom)]\<rparr>;
          (field_defs, df1) = foldl (add_perc self result_df denom) ([''TotalDests'', ''PercDests''], df0) percs
      in (field_defs, df1\<lparr>df_columns := map (\<lambda>(name, col). (name, \<lambda>oid. fillna0 (col oid))) (df_columns df1)\<rparr>))"

text \<open>
  The update cursor over Origins: every row gets the values of its origin, or zeros when the
  origin is not in the index of \<open>output_df\<close>.
\<close>

definition update_rows :: "string list \<Rightarrow> output_df \<Rightarrow> int list \<Rightarrow> (int \<times> (string \<times> cell) list) list" where
  "update_rows field_defs df oids =
     map (\<lambda>oid. (oid, zip field_defs
                         (case loc df oid of
                            Inr values \<Rightarrow> values
                          | Inl _ \<Rightarrow> replicate (length field_defs) (Num 0)))) oids"

definition accessibility_start_message :: string where
  "accessibility_start_message = ''Calculating statistics for final output...''"

text \<open>
  The method itself. With no result file \<open>result_df\<close> is still \<open>None\<close> after the loop and
  \<open>result_df.reset_index\<close> raises. An exception comes with the state in which it is raised:
  nothing has been written onto Origins by then. The elapsed time in one debug message is
  left out.
\<close>

definition calculate_accessibility_matrix_outputs ::
  "ParallelODCalculator \<Rightarrow> world \<Rightarrow> exn \<times> world + world" where
  "calculate_accessibility_matrix_outputs self w =
     (let w1 = log_main INFO accessibility_start_message w;
          w2 = log_main DEBUG (if USE_ARROW then ''Reading results into dataframe from Arrow tables...''
                               else ''Reading results into dataframe from CSV files...'') w1
      in case read_all (read_pairs (result_files w2)) (od_line_files self) of
           Inl e \<Rightarrow> Inl (e, w2)
         | Inr dfs \<Rightarrow>
            (case foldl add_file None dfs of
               None \<Rightarrow> Inl (Raised ''AttributeError'' [], w2)
             | Some result_df \<Rightarrow>
                 let w2a = w2\<lparr>io_trace := io_trace w2 @ map ReadCsv (od_line_files self)\<rparr>;
                     w3 = log_main DEBUG ''Time to read all OD result files'' w2a;
                     w4 = (if weight_field self \<noteq> []
                           then log_main DEBUG ''Joining weight field from destinations to results dataframe...'' w3
                           else w3);
                     weighted = join_weights self w4 result_df;
                     w5 = log_main DEBUG ''Creating output dataframe indexed by OriginOID...'' w4;
                     w6 = log_main DEBUG ''Calculating TotalDests and PercDests...'' w5;
                     w7 = log_main DEBUG ''Calculating the number of destinations accessible at different thresholds...'' w6;
                     (field_defs, df) = build_output self weighted (total_dests self w7);
                     w8 = log_main DEBUG ''Writing data to output Origins...'' w7;
                     w9 = w8\<lparr>origins_fields := Some (update_rows field_defs df (origins_rows w8))\<rparr>
                 in Inr (log_main INFO (''Accessibility statistics fields were added to Origins table ''
                                        @ origins self @ ''.'') w9)))"

section \<open>Travel time statistics: \<open>_calculate_travel_time_statistics_outputs\<close>\<close>

text \<open>
  \<open>pd.read_csv\<close> with the travel time column. A file without that column lets the
  aggregation over \<open>Total_Time\<close> raise \<open>KeyError\<close>.
\<close>

definition read_times :: "storage \<Rightarrow> string \<Rightarrow> exn + (int \<times> int \<times> rat) list" where
  "read_times files od_file =
     (case files od_file of
        None \<Rightarrow> Inl (Raised ''FileNotFoundError'' [])
      | Some (TimeRows rows) \<Rightarrow> Inr rows
      | Some (PairRows rows) \<Rightarrow> Inl (Raised ''KeyError'' []))"

text \<open>
  \<open>df.groupby(["OriginOID", "DestinationOID"]).agg({"Total_Time": ["count", "min", "max",
  "mean"]})\<close>: one row per distinct pair, pairs in ascending order.
\<close>

definition times_of :: "(int \<times> int \<times> rat) list \<Rightarrow> int \<times> int \<Rightarrow> rat list" where
  "times_of df k = map (\<lambda>(o_id, d_id, t). t) (filter (\<lambda>(o_id, d_id, t). (o_id, d_id) = k) df)"

definition agg_stats :: "(int \<times> int \<times> rat) list \<Rightarrow> stats_row list" where
  "agg_stats df =
     map (\<lambda>k. let ts = times_of df k in
              \<lparr>OriginOID = fst k, DestinationOID = snd k, t_count = length ts,
               t_min = Min (set ts), t_max = Max (set ts),
               t_mean = sum_list ts / of_nat (length ts)\<rparr>)
         (sort (remdups (map (\<lambda>(o_id, d_id, t). (o_id, d_id)) df)))"

definition range_prefix :: "int \<times> int \<Rightarrow> string" where
  "range_prefix origin_range =
     ''ODLines_O_'' @ str_int (fst origin_range) @ ''_'' @ str_int (snd origin_range) @ ''_''"

definition files_for_origin_range :: "string list \<Rightarrow> int \<times> int \<Rightarrow> string list" where
  "files_for_origin_range files origin_range =
     filter (\<lambda>f. startswith (basename f) (range_prefix origin_range)) files"

definition stats_header :: "string list" where
  "stats_header = [''OriginOID'', ''DestinationOID'', ''count'', ''min'', ''max'', ''mean'']"

text \<open>
  \<open>for origin_range in self.origin_ranges\<close>, with the flag \<open>first\<close>: a range without
  files is skipped; otherwise its files are read and concatenated, the statistics computed,
  and the rows written: the first time the file is created with its header, afterwards the
  rows are appended (appending to a missing file creates it without a header). When the
  files of a range cannot be read the exception comes with the state reached so far, which
  holds the rows of the ranges before it.
\<close>

fun travel_time_loop ::
  "string list \<Rightarrow> string \<Rightarrow> (int \<times> int) list \<Rightarrow> bool \<times> world
     \<Rightarrow> exn \<times> world + bool \<times> world" where
  "travel_time_loop files out [] st = Inr st"
| "travel_time_loop files out (origin_range # rest) (first, w) =
     (let ffr = files_for_origin_range files origin_range in
      if ffr = [] then travel_time_loop files out rest (first, w)
      else
        case read_all (read_times (result_files w)) ffr of
          Inl e \<Rightarrow> Inl (e, w)
        | Inr dfs \<Rightarrow>
            let stats = agg_stats (concat dfs);
                w1 = w\<lparr>io_trace := io_trace w @ map ReadCsv ffr\<rparr>;
                w2 = (if first
                      then w1\<lparr>out_csv := Some (stats_header, stats),
                              io_trace := io_trace w1 @ [CreateCsv out]\<rparr>
                      else w1\<lparr>out_csv := (case out_csv w1 of
                                             None \<Rightarrow> Some ([], stats)
                                           | Some (h, rows) \<Rightarrow> Some (h, rows @ stats)),
                              io_trace := io_trace w1 @ [AppendCsv out]\<rparr>)
            in travel_time_loop files out rest (False, w2))"

definition travel_time_start_message :: string where
  "travel_time_start_message = ''Calculating travel time statistics...''"

text \<open>
  The method: an existing output file is removed first. The elapsed time in the debug
  message is left out.
\<close>

definition calculate_travel_time_statistics_outputs ::
  "ParallelODCalculator \<Rightarrow> world \<Rightarrow> exn \<times> world + world" where
  "calculate_travel_time_statistics_outputs self w =
     (let w1 = log_main INFO travel_time_start_message w;
          w2 = (if out_csv w1 \<noteq> None
                then w1\<lparr>out_csv := None, io_trace := io_trace w1 @ [RemoveFile (out_csv_file self)]\<rparr>
                else w1)
      in case travel_time_loop (od_line_files self) (out_csv_file self) (origin_ranges self) (True, w2) of
           Inl err \<Rightarrow> Inl err
         | Inr (first, w3) \<Rightarrow>
             Inr (log_main INFO (''Travel time statistics written to '' @ out_csv_file self @ ''.'')
                   (log_main DEBUG ''Time to read all OD result files and calculate statistics'' w3)))"

section \<open>The scheduler: \<open>solve_od_in_parallel\<close>\<close>

text \<open>
  Logging an exception: \<open>for err in traceback.format_exc().splitlines(): LOGGER.error(err)\<close>.
\<close>

definition log_traceback :: "exn \<Rightarrow> world \<Rightarrow> world" where
  "log_traceback e w = w\<lparr>LOGGER := LOGGER w @ map (Pair ERROR) (traceback_lines e)\<rparr>"

text \<open>
  \<open>_validate_od_settings\<close> builds a throw-away solver object and initialises the engine;
  \<open>validation\<close> is the exception this raises, if any. The exception is logged and
  re-raised.
\<close>

definition validate_od_settings :: "exn option \<Rightarrow> world \<Rightarrow> exn \<times> world + world" where
  "validate_od_settings validation w =
     (let w1 = log_main DEBUG ''Validating OD Cost Matrix settings...'' w in
      case validation of
        None \<Rightarrow> Inr (log_main DEBUG ''OD Cost Matrix settings successfully validated.'' w1)
      | Some e \<Rightarrow> Inl (e, log_traceback e (log_main ERROR ''Error initializing OD Cost Matrix analysis.'' w1)))"

text \<open>
  \<open>for future in futures.as_completed(jobs)\<close>. The list holds the jobs in the order in
  which they complete, each with what \<open>future.result()\<close> does: raise an exception or
  return the job's result dictionary. A raised exception is logged with its traceback and
  raised again; a successful job's file is recorded; a failed solve is logged at debug
  level.
\<close>

definition progress_message :: "nat \<Rightarrow> nat \<Rightarrow> string" where
  "progress_message completed_jobs n_jobs =
     ''Finished OD Cost Matrix calculation '' @ str_nat completed_jobs @ '' of ''
     @ str_nat n_jobs @ ''.''"

definition result_error_message :: string where
  "result_error_message = ''Failed to get OD Cost Matrix result from parallel processing.''"

definition solve_failed_message :: "job_result \<Rightarrow> string" where
  "solve_failed_message result = ''Solve failed for job id '' @ jobId result @ ''.''"

fun collect ::
  "ParallelODCalculator \<Rightarrow> nat \<Rightarrow> world \<Rightarrow> (exn + job_result) list
     \<Rightarrow> exn \<times> ParallelODCalculator \<times> world + ParallelODCalculator \<times> world" where
  "collect self completed_jobs w [] = Inr (self, w)"
| "collect self completed_jobs w (future # rest) =
     (let completed_jobs' = completed_jobs + 1;
          w1 = log_main INFO (progress_message completed_jobs' (total_jobs self)) w
      in case future of
           Inl e \<Rightarrow>
             Inl (e, self, log_traceback e (log_main ERROR result_error_message w1))
         | Inr result \<Rightarrow>
             if solveSucceeded result
             then collect (self\<lparr>od_line_files := od_line_files self @ [outputLines result]\<rparr>)
                    completed_jobs' w1 rest
             else collect self completed_jobs'
                    (log_main DEBUG (solveMessages result)
                       (log_main DEBUG (solve_failed_message result) w1))
                    rest)"

text \<open>
  Post-processing: with at least one result file, the list is sorted and handed to the
  aggregator of the tool; with none, a warning is logged. An exception of the aggregator
  is not caught.
\<close>

definition all_failed_warning :: string where
  "all_failed_warning = ''All OD Cost Matrix solves failed, so no output was produced.''"

definition post_process ::
  "ParallelODCalculator \<Rightarrow> world \<Rightarrow> exn \<times> ParallelODCalculator \<times> world + ParallelODCalculator \<times> world" where
  "post_process self w =
     (if od_line_files self \<noteq> []
      then
        let self' = self\<lparr>od_line_files := sort (od_line_files self)\<rparr> in
        case (case tool (od_inputs self') of
                CalculateAccessibilityMatrix \<Rightarrow> calculate_accessibility_matrix_outputs self' w
              | CalculateTravelTimeStatistics \<Rightarrow> calculate_travel_time_statistics_outputs self' w) of
          Inl (e, w') \<Rightarrow> Inl (e, self', w')
        | Inr w' \<Rightarrow>
            Inr (self',
                 if od_output_location (od_inputs self') \<noteq> scratch_folder (od_inputs self')
                 then log_main INFO (''Individual network analysis results written to ''
                                     @ od_output_location (od_inputs self') @ ''.'') w'
                 else w')
      else Inr (self, log_main WARNING all_failed_warning w))"

definition DELETE_INTERMEDIATE_OD_OUTPUTS :: bool where
  "DELETE_INTERMEDIATE_OD_OUTPUTS = True"

text \<open>
  Cleanup. \<open>shutil.rmtree(folder, ignore_errors=True)\<close> does not raise; what it manages to
  remove is the file system's matter and enters as the function \<open>rmtree\<close>.
\<close>

definition cleanup :: "(string \<Rightarrow> storage \<Rightarrow> storage) \<Rightarrow> ParallelODCalculator \<Rightarrow> world \<Rightarrow> world" where
  "cleanup rmtree self w =
     (let w1 = (if DELETE_INTERMEDIATE_OD_OUTPUTS
                then (log_main INFO ''Deleting intermediate outputs...'' w)
                       \<lparr>result_files := rmtree (scratch_folder (od_inputs self)) (result_files w)\<rparr>
                else w)
      in log_main INFO ''Finished calculating OD Cost Matrices.'' w1)"

definition solve_od_in_parallel ::
  "(string \<Rightarrow> storage \<Rightarrow> storage) \<Rightarrow> exn option \<Rightarrow> (exn + job_result) list
     \<Rightarrow> ParallelODCalculator \<Rightarrow> world
     \<Rightarrow> exn \<times> ParallelODCalculator \<times> world + ParallelODCalculator \<times> world" where
  "solve_od_in_parallel rmtree validation futures self w =
     (case validate_od_settings validation w of
        Inl (e, w') \<Rightarrow> Inl (e, self, w')
      | Inr w0 \<Rightarrow>
          let w1 = log_main INFO (''Solving OD Cost Matrix in parallel ('' @ str_nat (total_jobs self)
                                  @ '' chunks)...'') w0
          in case collect self 0 w1 futures of
               Inl err \<Rightarrow> Inl err
             | Inr (self1, w2) \<Rightarrow>
                 (case post_process self1 w2 of
                    Inl err \<Rightarrow> Inl err
                  | Inr (self2, w3) \<Rightarrow> Inr (self2, cleanup rmtree self2 w3)))"

section \<open>Vocabulary of the statements\<close>

subsection \<open>Outcome of a run\<close>

text \<open>
  The aggregated output of a run is what lands outside the process: the statistics fields
  on Origins and the output CSV file. It is read off the final state, whether the run
  returned or raised.
\<close>

definition outputs_of :: "world \<Rightarrow> (int \<times> (string \<times> cell) list) list option \<times> (string list \<times> stats_row list) option" where
  "outputs_of w = (origins_fields w, out_csv w)"

definition aggregated_output ::
  "exn \<times> ParallelODCalculator \<times> world + ParallelODCalculator \<times> world
     \<Rightarrow> (int \<times> (string \<times> cell) list) list option \<times> (string list \<times> stats_row list) option" where
  "aggregated_output res = (case res of Inl (e, self, w) \<Rightarrow> outputs_of w | Inr (self, w) \<Rightarrow> outputs_of w)"

text \<open>
  The records one completed job adds to the main log, and those of a list of jobs that all
  returned a result, numbered from \<open>n + 1\<close>.
\<close>

definition job_log :: "nat \<Rightarrow> nat \<Rightarrow> job_result \<Rightarrow> log" where
  "job_log completed_jobs n_jobs result =
     (INFO, progress_message completed_jobs n_jobs)
     # (if solveSucceeded result then []
        else [(DEBUG, solve_failed_message result), (DEBUG, solveMessages result)])"

fun jobs_log :: "nat \<Rightarrow> nat \<Rightarrow> job_result list \<Rightarrow> log" where
  "jobs_log n n_jobs [] = []"
| "jobs_log n n_jobs (r # rs) = job_log (Suc n) n_jobs r @ jobs_log (Suc n) n_jobs rs"

text \<open>
  Two states that agree on everything but the main log.
\<close>

definition same_data :: "world \<Rightarrow> world \<Rightarrow> bool" where
  "same_data w1 w2 \<longleftrightarrow>
     origins_rows w1 = origins_rows w2 \<and> destinations_rows w1 = destinations_rows w2
     \<and> result_files w1 = result_files w2 \<and> origins_fields w1 = origins_fields w2
     \<and> out_csv w1 = out_csv w2 \<and> io_trace w1 = io_trace w2"

subsection \<open>Accessibility statistics\<close>

text \<open>
  The records the accessibility aggregator logs, and the rows it writes onto Origins for a
  given combined table of reach counts.
\<close>

definition accessibility_log :: "ParallelODCalculator \<Rightarrow> log" where
  "accessibility_log self =
     [(INFO, accessibility_start_message),
      (DEBUG, if USE_ARROW then ''Reading results into dataframe from Arrow tables...''
              else ''Reading results into dataframe from CSV files...''),
      (DEBUG, ''Time to read all OD result files'')]
     @ (if weight_field self \<noteq> []
        then [(DEBUG, ''Joining weight field from destinations to results dataframe...'')] else [])
     @ [(DEBUG, ''Creating output dataframe indexed by OriginOID...''),
        (DEBUG, ''Calculating TotalDests and PercDests...''),
        (DEBUG, ''Calculating the number of destinations accessible at different thresholds...''),
        (DEBUG, ''Writing data to output Origins...''),
        (INFO, ''Accessibility statistics fields were added to Origins table '' @ origins self @ ''.'')]"

definition accessibility_rows ::
  "ParallelODCalculator \<Rightarrow> world \<Rightarrow> ((int \<times> int) \<times> int) list \<Rightarrow> (int \<times> (string \<times> cell) list) list" where
  "accessibility_rows self w result_df =
     (let out = build_output self (join_weights self w result_df) (total_dests self w)
      in update_rows (fst out) (snd out) (origins_rows w))"

text \<open>
  The state of the travel time aggregator when its loop starts: the start of the method is
  logged and an existing output file removed.
\<close>

definition travel_time_prepare :: "ParallelODCalculator \<Rightarrow> world \<Rightarrow> world" where
  "travel_time_prepare self w =
     (let w1 = log_main INFO travel_time_start_message w in
      if out_csv w1 \<noteq> None
      then w1\<lparr>out_csv := None, io_trace := io_trace w1 @ [RemoveFile (out_csv_file self)]\<rparr>
      else w1)"

text \<open>
  The pairs a result file holds (none if it cannot be read), and the reach-count of an
  (origin, destination) pair: the number of result files in which it appears. Each result
  file belongs to one origin range, one destination range and one departure instant, so
  for a given pair this is the number of departure instants at which it was reached.
\<close>

definition pair_rows :: "storage \<Rightarrow> string \<Rightarrow> (int \<times> int) list" where
  "pair_rows files od_file = (case read_pairs files od_file of Inl _ \<Rightarrow> [] | Inr rows \<Rightarrow> rows)"



text \<open>
  The two columns of one threshold, the names of all statistics fields in the order in
  which they are created, and the columns of \<open>output_df\<close> before \<open>fillna\<close>.
\<close>

definition perc_columns ::
  "ParallelODCalculator \<Rightarrow> (int \<times> int \<times> rat option) list \<Rightarrow> rat \<Rightarrow> nat \<Rightarrow> (string \<times> (int \<Rightarrow> cell)) list" where
  "perc_columns self result_df denom perc =
     (let col = aligned (weight_sum_by_origin result_df (\<lambda>times. threshold self perc \<le> of_int times))
      in [(total_field perc, col), (perc_field perc, \<lambda>oid. cell_perc (col oid) denom)])"

definition field_names :: "string list" where
  "field_names = [''TotalDests'', ''PercDests''] @ concat (map (\<lambda>p. [total_field p, perc_field p]) percs)"

definition raw_columns ::
  "ParallelODCalculator \<Rightarrow> (int \<times> int \<times> rat option) list \<Rightarrow> rat \<Rightarrow> (string \<times> (int \<Rightarrow> cell)) list" where
  "raw_columns self result_df denom =
     (let tot = aligned (weight_sum_by_origin result_df (\<lambda>times. 0 < times))
      in [(''TotalDests'', tot), (''PercDests'', \<lambda>oid. cell_perc (tot oid) denom)]
         @ concat (map (perc_columns self result_df denom) percs))"

text \<open>
  The summed weight of the rows of one origin whose reach-count satisfies a condition, and
  the statistics of one origin written as (field name, value) pairs.
\<close>

definition origin_weight ::
  "ParallelODCalculator \<Rightarrow> world \<Rightarrow> ((int \<times> int) \<times> int) list \<Rightarrow> int \<Rightarrow> (int \<Rightarrow> bool) \<Rightarrow> rat" where
  "origin_weight self w result_df oid cond =
     sum_list (map (\<lambda>((o_id, d_id), times). skipna (Weight self w d_id))
                   (filter (\<lambda>((o_id, d_id), times). o_id = oid \<and> cond times) result_df))"

definition stat_row ::
  "ParallelODCalculator \<Rightarrow> world \<Rightarrow> ((int \<times> int) \<times> int) list \<Rightarrow> int \<Rightarrow> (string \<times> cell) list" where
  "stat_row self w result_df oid =
     (let denom = total_dests self w;
          tot = origin_weight self w result_df oid (\<lambda>times. 0 < times)
      in [(''TotalDests'', Num tot), (''PercDests'', fillna0 (cell_perc (Num tot) denom))]
         @ concat (map (\<lambda>perc.
              let s = origin_weight self w result_df oid (\<lambda>times. threshold self perc \<le> of_int times)
              in [(total_field perc, Num s), (perc_field perc, fillna0 (cell_perc (Num s) denom))]) percs))"



text \<open>
  The value of a statistics field of an origin after the aggregator has run: \<open>None\<close> when
  the aggregator raised, wrote no fields, or wrote no row or no such field for the origin.
\<close>

definition accessibility_field :: "ParallelODCalculator \<Rightarrow> world \<Rightarrow> int \<Rightarrow> string \<Rightarrow> cell option" where
  "accessibility_field self w oid name =
     (case calculate_accessibility_matrix_outputs self w of
        Inl e \<Rightarrow> None
      | Inr w' \<Rightarrow>
          (case origins_fields w' of
             None \<Rightarrow> None
           | Some table \<Rightarrow> (case map_of table oid of None \<Rightarrow> None | Some row \<Rightarrow> map_of row name)))"

text \<open>
  The order of cell values: NaN compares with nothing, infinities lie at the ends.
\<close>

fun cell_le :: "cell \<Rightarrow> cell \<Rightarrow> bool" where
  "cell_le NaN c = False"
| "cell_le c NaN = False"
| "cell_le NegInf c = True"
| "cell_le c PosInf = True"
| "cell_le (Num a) (Num b) = (a \<le> b)"
| "cell_le c d = False"

subsection \<open>Travel time statistics\<close>










subsection \<open>Worked examples\<close>

text \<open>
  A time window with ten departure times, two origins and two destinations with an
  optional Jobs field, and result files given as a list of (path, content).
\<close>

definition example_times :: "datetime list" where
  "example_times = map (\<lambda>k. \<lparr>year = 2022, month = 4, day = 28, hour = 8, minute = 6 * k, second = 0\<rparr>) [0..<10]"

definition example_inputs :: inputs where
  "example_inputs = \<lparr>tool = CalculateAccessibilityMatrix, scratch_folder = ''scratch'',
                      od_output_location = ''scratch''\<rparr>"

definition example_calculator :: "string \<Rightarrow> string list \<Rightarrow> ParallelODCalculator" where
  "example_calculator field files =
     \<lparr>od_inputs = example_inputs, origins = ''Origins'', weight_field = field,
      start_times = example_times, origin_ranges = [(1, 2)], od_line_files = files,
      total_jobs = 10, out_csv_file = ''stats.csv''\<rparr>"

definition example_world :: "rat \<Rightarrow> rat \<Rightarrow> (string \<times> od_lines_file) list \<Rightarrow> world" where
  "example_world jobs7 jobs8 files =
     \<lparr>origins_rows = [1, 2],
      destinations_rows = [(7, \<lambda>field. if field = ''Jobs'' then Some jobs7 else None),
                           (8, \<lambda>field. if field = ''Jobs'' then Some jobs8 else None)],
      result_files = map_of files, origins_fields = None, out_csv = None, LOGGER = [],
      io_trace = []\<rparr>"

text \<open>
  Concrete runs: one result file with the single pair (1, 7); two result files with a
  Jobs weight; a travel time run over two origin ranges with three result files named by
  the file naming scheme; job outcomes and a failed engine result.
\<close>

definition one_file_calculator :: ParallelODCalculator where
  "one_file_calculator = example_calculator [] [''a.csv'']"

definition one_file_world :: world where
  "one_file_world = example_world 0 0 [(''a.csv'', PairRows [(1, 7)])]"

definition jobs_calculator :: ParallelODCalculator where
  "jobs_calculator = example_calculator ''Jobs'' [''a.csv'', ''b.csv'']"

definition jobs_world :: "rat \<Rightarrow> rat \<Rightarrow> world" where
  "jobs_world jobs7 jobs8 =
     example_world jobs7 jobs8 [(''a.csv'', PairRows [(1, 7), (1, 8)]), (''b.csv'', PairRows [(1, 8)])]"

definition travel_inputs :: inputs where
  "travel_inputs = \<lparr>tool = CalculateTravelTimeStatistics, scratch_folder = ''C:/scratch/'',
                     od_output_location = ''C:/scratch/''\<rparr>"

definition departure :: "nat \<Rightarrow> datetime" where
  "departure m = \<lparr>year = 2022, month = 4, day = 28, hour = 8, minute = m, second = 0\<rparr>"

definition travel_file_a :: string where
  "travel_file_a = ''C:/scratch/ODLines_O_1_2_D_7_8_T_20220428_080000.csv''"

definition travel_file_b :: string where
  "travel_file_b = ''C:/scratch/ODLines_O_1_2_D_7_8_T_20220428_083000.csv''"

definition travel_file_c :: string where
  "travel_file_c = ''C:/scratch/ODLines_O_3_4_D_7_8_T_20220428_080000.csv''"

definition travel_calculator :: ParallelODCalculator where
  "travel_calculator =
     \<lparr>od_inputs = travel_inputs, origins = ''Origins'', weight_field = [],
      start_times = [departure 0, departure 30], origin_ranges = [(1, 2), (3, 4)],
      od_line_files = [], total_jobs = 4, out_csv_file = ''stats.csv''\<rparr>"

definition travel_world :: world where
  "travel_world =
     \<lparr>origins_rows = [1, 2, 3, 4], destinations_rows = [(7, \<lambda>field. None), (8, \<lambda>field. None)],
      result_files = map_of [(travel_file_a, TimeRows [(1, 7, 10)]),
                             (travel_file_b, TimeRows [(1, 7, 20)]),
                             (travel_file_c, TimeRows [(3, 8, 5)])],
      origins_fields = None, out_csv = None, LOGGER = [], io_trace = []\<rparr>"

definition travel_result :: "string \<Rightarrow> job_result" where
  "travel_result output =
     \<lparr>jobId = ''job'', solveSucceeded = True, solveMessages = [],
      outputLines = output, logFile = ''log''\<rparr>"

definition failed_result :: "string \<Rightarrow> job_result" where
  "failed_result uuid =
     \<lparr>jobId = uuid, solveSucceeded = False, solveMessages = ''Solve failed.'',
      outputLines = [], logFile = ''log''\<rparr>"

definition failed_solve :: solve_result where
  "failed_solve =
     \<lparr>engine_succeeded = False,
      solverMessages = [''No \"Destinations\" found for \"Location 1\" in \"Origins\".'',
                        ''No solution found.'',
                        ''No \"Destinations\" found for \"Location 2\" in \"Origins\".''],
      Lines = []\<rparr>"

definition keep_files :: "string \<Rightarrow> storage \<Rightarrow> storage" where
  "keep_files folder files = files"



text \<open>
  An accessibility run in which no job produced a result file.
\<close>

definition all_failed_calculator :: ParallelODCalculator where
  "all_failed_calculator = example_calculator [] []"

definition all_failed_world :: world where
  "all_failed_world = example_world 0 0 []"

section \<open>Properties of the range partitioning\<close>

text \<open>
  The state after the loop has consumed \<open>xs\<close>, for a positive chunk size \<open>k\<close>: the
  finished ranges are the full chunks, the counter is the number of leftover identifiers and
  the open range spans exactly the leftover identifiers.
\<close>

lemma oid_loop_char:
  assumes "0 < k"
  shows "foldl (oid_step (int k)) oid_init xs =
     \<lparr>ranges = map (full_range xs k) [0..<length xs div k],
      num_in_range = int (length xs mod k),
      current_range = (if length xs mod k = 0 then (0, 0) else tail_range xs k)\<rparr>"
proof (induction xs rule: rev_induct)
  case Nil
  then show ?case by (simp add: oid_init_def)
next
  case (snoc x xs)
  let ?n = "length xs"
  have old: "map (full_range (xs @ [x]) k) [0..<?n div k] = map (full_range xs k) [0..<?n div k]"
  proof (rule map_cong[OF refl])
    fix i assume "i \<in> set [0..<?n div k]"
    then have "i < ?n div k" by simp
    then have "Suc i \<le> ?n div k" by simp
    then have "Suc i * k \<le> ?n div k * k" by (rule mult_le_mono1)
    also have "\<dots> \<le> ?n" by simp
    finally have "Suc i * k \<le> ?n" .
    then have "i * k + k - 1 < ?n" "i * k < ?n" using assms by auto
    then show "full_range (xs @ [x]) k i = full_range xs k i"
      by (simp add: full_range_def nth_append)
  qed
  let ?s = "\<lparr>ranges = map (full_range xs k) [0..<?n div k],
      num_in_range = int (?n mod k),
      current_range = (if ?n mod k = 0 then (0, 0) else tail_range xs k)\<rparr>"
  have step: "foldl (oid_step (int k)) oid_init (xs @ [x]) = oid_step (int k) ?s x"
    by (simp only: foldl_append foldl.simps snoc.IH)
  show ?case
  proof (cases "Suc (?n mod k) = k")
    case True
    then have dm: "Suc ?n div k = Suc (?n div k)" "Suc ?n mod k = 0"
      by (simp_all add: div_Suc mod_Suc)
    have nk: "?n div k * k + k - 1 = ?n"
      using True by (metis add_Suc_right diff_Suc_1 div_mult_mod_eq mult.commute)
    have e: "?n div k * k = ?n - ?n mod k"
      by (metis minus_mod_eq_div_mult)
    have "?n mod k \<le> ?n" by simp
    then have lt: "?n mod k \<noteq> 0 \<Longrightarrow> ?n - ?n mod k < ?n" by arith
    have low: "(xs @ [x]) ! (?n div k * k) = (if ?n mod k = 0 then x else xs ! (?n - ?n mod k))"
      unfolding e using lt by (auto simp: nth_append)
    have new: "full_range (xs @ [x]) k (?n div k)
        = (if ?n mod k = 0 then x else xs ! (?n - ?n mod k), x)"
      unfolding full_range_def nk low by simp
    have cond: "int (?n mod k) + 1 = int k" using True by linarith
    show ?thesis
      by (subst step) (simp add: oid_step_def Let_def cond dm old new tail_range_def)
  next
    case False
    then have dm: "Suc ?n div k = ?n div k" "Suc ?n mod k = Suc (?n mod k)"
      by (simp_all add: div_Suc mod_Suc)
    have cond: "int (?n mod k) + 1 \<noteq> int k" using False by linarith
    have "?n mod k \<le> ?n" by simp
    then have lt: "?n mod k \<noteq> 0 \<Longrightarrow> ?n - ?n mod k < ?n" by arith
    have tl: "tail_range (xs @ [x]) k
        = (if ?n mod k = 0 then x else xs ! (?n - ?n mod k), x)"
      unfolding tail_range_def using lt by (auto simp: dm nth_append Suc_diff_le)
    show ?thesis
      by (subst step) (simp add: oid_step_def Let_def cond dm old tl tail_range_def[of xs])
  qed
qed

lemma get_oid_ranges_char:
  assumes "0 < k"
  shows "get_oid_ranges_for_input input_fc (int k) w =
     (let xs = filter w input_fc in
      map (full_range xs k) [0..<length xs div k] @
      (if length xs mod k \<noteq> 0 \<and> tail_range xs k \<noteq> (0, 0) then [tail_range xs k] else []))"
  unfolding get_oid_ranges_for_input_def SearchCursor_def oid_loop_char[OF assms]
  by (simp add: Let_def)

lemma div_offset:
  assumes "j < (k::nat)"
  shows "(q * k + j) div k = q"
  using assms by simp

lemma num_chunks_alt:
  assumes "0 < k"
  shows "num_chunks n k = n div k + (if n mod k = 0 then 0 else 1)"
proof -
  have n: "n = n div k * k + n mod k" by simp
  have r: "n mod k < k" using assms by simp
  show ?thesis
  proof (cases "n mod k = 0")
    case True
    then have "n + k - 1 = n div k * k + (k - 1)" using assms n by simp
    moreover have "k - 1 < k" using assms by simp
    ultimately have "(n + k - 1) div k = n div k" by (simp only: div_offset)
    with True show ?thesis by (simp add: num_chunks_def)
  next
    case False
    then have "n + k - 1 = Suc (n div k) * k + (n mod k - 1)" using n r by simp
    moreover have "n mod k - 1 < k" using r by simp
    ultimately have "(n + k - 1) div k = Suc (n div k)" by (simp only: div_offset)
    with False show ?thesis by (simp add: num_chunks_def)
  qed
qed

lemma expected_ranges_chunks:
  assumes "0 < k"
  shows "expected_ranges xs k = map (chunk_range xs k) [0..<num_chunks (length xs) k]"
proof -
  let ?n = "length xs"
  have full: "map (full_range xs k) [0..<?n div k] = map (chunk_range xs k) [0..<?n div k]"
  proof (rule map_cong[OF refl])
    fix i assume "i \<in> set [0..<?n div k]"
    then have "Suc i \<le> ?n div k" by simp
    then have "Suc i * k \<le> ?n div k * k" by (rule mult_le_mono1)
    also have "\<dots> \<le> ?n" by simp
    finally have "min (Suc i * k) ?n = Suc i * k" by simp
    then show "full_range xs k i = chunk_range xs k i"
      using assms by (simp add: full_range_def chunk_range_def add.commute)
  qed
  show ?thesis
  proof (cases "?n mod k = 0")
    case True
    then show ?thesis
      using assms by (simp add: expected_ranges_def num_chunks_alt full)
  next
    case False
    then have ne: "xs \<noteq> []" by auto
    have "?n < Suc (?n div k) * k" using assms
      by (metis dividend_less_div_times add.commute mult_Suc)
    then have m: "min (Suc (?n div k) * k) ?n = ?n" by simp
    have "tail_range xs k = chunk_range xs k (?n div k)"
      unfolding tail_range_def chunk_range_def m
      using ne by (simp add: last_conv_nth minus_mod_eq_div_mult)
    then show ?thesis
      using False assms by (simp add: expected_ranges_def num_chunks_alt full)
  qed
qed

lemma chunk_lo_valid:
  assumes "0 < k" "i < num_chunks n k"
  shows "i * k < n"
proof -
  have "Suc i \<le> (n + k - 1) div k" using assms(2) by (simp add: num_chunks_def)
  then have "Suc i * k \<le> n + k - 1"
    using assms(1) by (simp add: less_eq_div_iff_mult_less_eq)
  then show ?thesis using assms(1) by simp
qed

lemma chunk_hi_valid:
  assumes "0 < k" "i < num_chunks n k"
  shows "i * k \<le> min (Suc i * k) n - 1" "min (Suc i * k) n - 1 < n"
    "min (Suc i * k) n - 1 < Suc i * k" "min (Suc i * k) n - i * k \<le> k"
  using chunk_lo_valid[OF assms] assms(1) by (auto simp: min_def)

lemma chunk_of_index:
  assumes "0 < k" "t < n"
  shows "t div k < num_chunks n k" "(t div k) * k \<le> t" "t \<le> min (Suc (t div k) * k) n - 1"
proof -
  have "t div k * k \<le> t" by simp
  then show "(t div k) * k \<le> t" .
  have "t < Suc (t div k) * k" using assms(1)
    by (metis dividend_less_div_times add.commute mult_Suc)
  then show "t \<le> min (Suc (t div k) * k) n - 1" using assms(2) by arith
  have "Suc (t div k) * k \<le> t + k" by simp
  also have "\<dots> \<le> n + k - 1" using assms(2) by simp
  finally have "Suc (t div k) \<le> (n + k - 1) div k"
    using assms(1) by (simp add: less_eq_div_iff_mult_less_eq)
  then show "t div k < num_chunks n k" by (simp add: num_chunks_def)
qed

lemma strict_sorted_nth_le:
  assumes "sorted_wrt (<) (xs::int list)" "a < length xs" "b < length xs"
  shows "xs ! a \<le> xs ! b \<longleftrightarrow> a \<le> b" and "xs ! a < xs ! b \<longleftrightarrow> a < b"
proof -
  have lt: "\<And>i j. i < j \<Longrightarrow> j < length xs \<Longrightarrow> xs ! i < xs ! j"
    using assms(1) by (simp add: sorted_wrt_iff_nth_less)
  show "xs ! a < xs ! b \<longleftrightarrow> a < b"
    using lt[of a b] lt[of b a] assms(2,3) by (cases a b rule: linorder_cases) auto
  show "xs ! a \<le> xs ! b \<longleftrightarrow> a \<le> b"
    using lt[of a b] lt[of b a] assms(2,3) by (cases a b rule: linorder_cases) auto
qed

lemma count_in_index_range:
  assumes "sorted_wrt (<) xs" "a \<le> b" "b < length xs"
  shows "count_in xs (xs ! a, xs ! b) = b + 1 - a"
proof -
  have d: "distinct xs" using assms(1) by (simp add: strict_sorted_iff)
  have "{x. in_range (xs ! a, xs ! b) x} \<inter> set xs = (\<lambda>i. xs ! i) ` {a..b}"
  proof (rule set_eqI, rule iffI)
    fix x assume "x \<in> {x. in_range (xs ! a, xs ! b) x} \<inter> set xs"
    then obtain i where i: "i < length xs" "x = xs ! i" and r: "xs ! a \<le> xs ! i" "xs ! i \<le> xs ! b"
      by (auto simp: in_range_def in_set_conv_nth)
    have "a \<le> i" "i \<le> b"
      using r strict_sorted_nth_le(1)[OF assms(1)] i(1) assms(2,3) by auto
    then show "x \<in> (\<lambda>i. xs ! i) ` {a..b}" using i(2) by auto
  next
    fix x assume "x \<in> (\<lambda>i. xs ! i) ` {a..b}"
    then obtain i where i: "a \<le> i" "i \<le> b" "x = xs ! i" by auto
    then have "i < length xs" using assms(3) by simp
    then show "x \<in> {x. in_range (xs ! a, xs ! b) x} \<inter> set xs"
      using i strict_sorted_nth_le(1)[OF assms(1)] assms(2,3)
      by (auto simp: in_range_def)
  qed
  moreover have "inj_on (\<lambda>i. xs ! i) {a..b}"
  proof (rule inj_onI)
    fix x y assume "x \<in> {a..b}" "y \<in> {a..b}" "xs ! x = xs ! y"
    then have "x < length xs" "y < length xs" "xs ! x = xs ! y" using assms(3) by auto
    then show "x = y" using d by (simp add: nth_eq_iff_index_eq)
  qed
  ultimately have "card ({x. in_range (xs ! a, xs ! b) x} \<inter> set xs) = card {a..b}"
    by (simp add: card_image)
  then show ?thesis
    using d by (simp add: count_in_def distinct_length_filter)
qed

lemma telescope_nat:
  fixes f :: "nat \<Rightarrow> nat"
  assumes "\<And>i. f i \<le> f (Suc i)"
  shows "sum_list (map (\<lambda>i. f (Suc i) - f i) [0..<c]) = f c - f 0"
proof (induction c)
  case 0
  then show ?case by simp
next
  case (Suc c)
  have "f 0 \<le> f c" by (induction c) (auto intro: le_trans assms)
  with Suc assms[of c] show ?case by simp
qed

lemma count_in_chunk:
  assumes "sorted_wrt (<) xs" "0 < k" "i < num_chunks (length xs) k"
  shows "count_in xs (chunk_range xs k i) = min (Suc i * k) (length xs) - min (i * k) (length xs)"
proof -
  note h = chunk_hi_valid[OF assms(2,3)] chunk_lo_valid[OF assms(2,3)]
  have "count_in xs (chunk_range xs k i) = min (Suc i * k) (length xs) - 1 + 1 - i * k"
    unfolding chunk_range_def by (rule count_in_index_range[OF assms(1) h(1) h(2)])
  then show ?thesis using h by (simp add: min_def split: if_splits)
qed

lemma sum_count_in_chunks:
  assumes "sorted_wrt (<) xs" "0 < k"
  shows "sum_list (map (count_in xs) (map (chunk_range xs k) [0..<num_chunks (length xs) k]))
           = length xs"
proof -
  let ?n = "length xs"
  let ?c = "num_chunks ?n k"
  let ?f = "\<lambda>i. min (i * k) ?n"
  have bound: "?n \<le> ?c * k"
  proof (cases "?n mod k = 0")
    case True
    then have "?n = ?n div k * k" by (metis add.right_neutral div_mult_mod_eq mult.commute)
    then show ?thesis using True assms(2) by (simp add: num_chunks_alt)
  next
    case False
    have "?n < Suc (?n div k) * k" using assms(2)
      by (metis dividend_less_div_times add.commute mult_Suc)
    then show ?thesis using False assms(2) by (simp add: num_chunks_alt)
  qed
  have eq: "map (count_in xs) (map (chunk_range xs k) [0..<?c])
      = map (\<lambda>i. ?f (Suc i) - ?f i) [0..<?c]"
    using count_in_chunk[OF assms] by simp
  have "sum_list (map (count_in xs) (map (chunk_range xs k) [0..<?c]))
      = sum_list (map (\<lambda>i. ?f (Suc i) - ?f i) [0..<?c])"
    by (simp only: eq)
  also have "\<dots> = ?f ?c - ?f 0"
    by (rule telescope_nat) (simp add: min_def)
  also have "\<dots> = ?n" using bound by (simp only: min_def) simp
  finally show ?thesis .
qed

lemma covers_length_bound:
  assumes "covers rs xs" "\<forall>r \<in> set rs. count_in xs r \<le> k"
  shows "length xs \<le> k * length rs"
proof -
  have "length (filter (\<lambda>x. \<exists>r \<in> set rs'. in_range r x) xs)
      \<le> sum_list (map (count_in xs) rs')" for rs'
  proof (induction rs')
    case Nil
    then show ?case by simp
  next
    case (Cons r rs')
    have "length (filter (\<lambda>x. in_range r x \<or> (\<exists>r \<in> set rs'. in_range r x)) ys)
        \<le> length (filter (in_range r) ys) + length (filter (\<lambda>x. \<exists>r \<in> set rs'. in_range r x) ys)" for ys
      by (induction ys) auto
    from this[of xs] Cons show ?case by (simp add: count_in_def)
  qed
  from this[of rs] have "length xs \<le> sum_list (map (count_in xs) rs)"
    using assms(1) by (simp add: covers_def)
  also have "\<dots> \<le> sum_list (map (\<lambda>_. k) rs)"
    using assms(2) by (intro sum_list_mono) auto
  also have "\<dots> = k * length rs" by (simp add: sum_list_triv mult.commute)
  finally show ?thesis .
qed

lemma num_chunks_least:
  assumes "0 < k" "n \<le> k * m"
  shows "num_chunks n k \<le> m"
proof -
  have "n + k - 1 \<le> m * k + (k - 1)" using assms by (simp add: mult.commute)
  then have "(n + k - 1) div k \<le> (m * k + (k - 1)) div k" by (rule div_le_mono)
  also have "\<dots> = m" using assms(1) by (intro div_offset) simp
  finally show ?thesis by (simp add: num_chunks_def)
qed

lemma tail_not_sentinel:
  assumes "sorted_wrt (<) xs" "0 < k" "length xs mod k \<noteq> 0"
    and "\<not> (length xs mod k = 1 \<and> last xs = 0)"
  shows "tail_range xs k \<noteq> (0, 0)"
proof (cases "last xs = 0")
  case False
  then show ?thesis by (simp add: tail_range_def)
next
  case True
  let ?n = "length xs" and ?r = "length xs mod k"
  have ne: "xs \<noteq> []" using assms(3) by auto
  have "?r \<le> ?n" by simp
  moreover have "2 \<le> ?r" using assms(3,4) True by arith
  ultimately have "?n - ?r < ?n - 1" "?n - 1 < ?n" by arith+
  then have "xs ! (?n - ?r) < xs ! (?n - 1)"
    using assms(1) by (simp add: sorted_wrt_iff_nth_less)
  then have "xs ! (?n - ?r) < 0" using True ne by (simp add: last_conv_nth)
  then show ?thesis by (simp add: tail_range_def)
qed

lemma get_oid_ranges_expected:
  assumes "sorted_wrt (<) (filter w input_fc)" "0 < k"
    and "\<not> (length (filter w input_fc) mod k = 1 \<and> last (filter w input_fc) = 0)"
  shows "get_oid_ranges_for_input input_fc (int k) w = expected_ranges (filter w input_fc) k"
proof -
  show ?thesis
    using tail_not_sentinel[OF assms(1) assms(2) _ assms(3)]
    by (auto simp: get_oid_ranges_char[OF assms(2)] expected_ranges_def Let_def)
qed

lemma get_oid_ranges_nonzero:
  assumes "0 < k" "0 \<notin> set (filter w input_fc)"
  shows "get_oid_ranges_for_input input_fc (int k) w = expected_ranges (filter w input_fc) k"
proof -
  let ?xs = "filter w input_fc"
  have "tail_range ?xs k \<noteq> (0, 0)" if "length ?xs mod k \<noteq> 0"
  proof -
    have "?xs \<noteq> []" using that by auto
    then have "last ?xs \<in> set ?xs" by (rule last_in_set)
    then have "last ?xs \<noteq> 0" using assms(2) by metis
    then show ?thesis by (simp add: tail_range_def)
  qed
  then show ?thesis
    by (auto simp: get_oid_ranges_char[OF assms(1)] expected_ranges_def Let_def)
qed

lemma chunk_ranges_bounds:
  assumes "sorted_wrt (<) xs" "0 < k" "r \<in> set (map (chunk_range xs k) [0..<num_chunks (length xs) k])"
  shows "fst r \<le> snd r \<and> fst r \<in> set xs \<and> snd r \<in> set xs \<and> count_in xs r \<le> k"
proof -
  from assms(3) obtain i where i: "i < num_chunks (length xs) k" and r: "r = chunk_range xs k i"
    by auto
  note h = chunk_hi_valid[OF assms(2) i] chunk_lo_valid[OF assms(2) i]
  have "fst r \<le> snd r"
    unfolding r chunk_range_def using strict_sorted_nth_le(1)[OF assms(1) h(5) h(2)] h(1) by simp
  moreover have "fst r \<in> set xs" "snd r \<in> set xs"
    unfolding r chunk_range_def using h(2,5) by simp_all
  moreover have "count_in xs r \<le> k"
    unfolding r count_in_chunk[OF assms(1,2) i] using h(4,5) by (simp add: min_def split: if_splits)
  ultimately show ?thesis by simp
qed

lemma chunk_ranges_ascending:
  assumes "sorted_wrt (<) xs" "0 < k"
  shows "sorted_wrt (\<lambda>a b. snd a < fst b) (map (chunk_range xs k) [0..<num_chunks (length xs) k])"
proof -
  have "snd (chunk_range xs k i) < fst (chunk_range xs k j)"
    if "i < j" "j < num_chunks (length xs) k" for i j
  proof -
    have i: "i < num_chunks (length xs) k" using that by simp
    note hi = chunk_hi_valid[OF assms(2) i] and lj = chunk_lo_valid[OF assms(2) that(2)]
    have "Suc i * k \<le> j * k" using that(1) by (intro mult_le_mono1) simp
    then have "min (Suc i * k) (length xs) - 1 < j * k" using hi(3) by linarith
    then show ?thesis
      unfolding chunk_range_def using strict_sorted_nth_le(2)[OF assms(1) hi(2) lj] by simp
  qed
  then show ?thesis
    by (simp add: sorted_wrt_iff_nth_less)
qed

lemma chunk_ranges_cover:
  assumes "sorted_wrt (<) xs" "0 < k"
  shows "covers (map (chunk_range xs k) [0..<num_chunks (length xs) k]) xs"
  unfolding covers_def
proof
  fix x assume "x \<in> set xs"
  then obtain t where t: "t < length xs" "x = xs ! t" by (auto simp: in_set_conv_nth)
  note c = chunk_of_index[OF assms(2) t(1)]
  note h = chunk_hi_valid[OF assms(2) c(1)] chunk_lo_valid[OF assms(2) c(1)]
  have "in_range (chunk_range xs k (t div k)) x"
    unfolding in_range_def chunk_range_def t(2)
    using strict_sorted_nth_le(1)[OF assms(1) h(5) t(1)]
          strict_sorted_nth_le(1)[OF assms(1) t(1) h(2)] c(2,3) by simp
  then show "\<exists>r \<in> set (map (chunk_range xs k) [0..<num_chunks (length xs) k]). in_range r x"
    using c(1) by auto
qed

text \<open>
  Claim C1, on every input on which the closing test after the loop sees the range that is
  still open. The strictly ascending sequence of surviving identifiers and a maximum chunk
  size of at least 1 are given. The closing test compares the open range with [0, 0], so it
  misses the open range exactly when the final partial chunk is the single identifier 0.
  On every other input (in particular whenever no surviving identifier is 0) the returned
  ranges are inclusive ranges bounded by surviving identifiers, each holding at most
  \<open>max_chunk_size\<close> surviving identifiers; they are pairwise disjoint and ascending; every
  surviving identifier lies in one of them; the survivor counts of the ranges add up to the
  number of surviving identifiers (also when filtered-out identifiers leave gaps); no list
  of ranges with these two properties is shorter; and no survivors give the empty list.
\<close>

theorem oid_ranges_partition:
  fixes input_fc :: "int list" and max_chunk_size :: int and where_clause :: "int \<Rightarrow> bool"
  defines "surv \<equiv> SearchCursor input_fc where_clause"
    and "rs \<equiv> get_oid_ranges_for_input input_fc max_chunk_size where_clause"
  assumes ordered: "sorted_wrt (<) surv"
    and size: "1 \<le> max_chunk_size"
    and open_range: "\<not> (length surv mod nat max_chunk_size = 1 \<and> last surv = 0)"
  shows "(\<forall>r \<in> set rs. fst r \<le> snd r \<and> fst r \<in> set surv \<and> snd r \<in> set surv
            \<and> int (count_in surv r) \<le> max_chunk_size)
       \<and> sorted_wrt (\<lambda>a b. snd a < fst b) rs
       \<and> covers rs surv
       \<and> sum_list (map (count_in surv) rs) = length surv
       \<and> (\<forall>rs'. covers rs' surv \<and> (\<forall>r \<in> set rs'. int (count_in surv r) \<le> max_chunk_size)
              \<longrightarrow> length rs \<le> length rs')
       \<and> (surv = [] \<longrightarrow> rs = [])"
proof -
  define k where "k = nat max_chunk_size"
  have k: "0 < k" "max_chunk_size = int k" using size by (simp_all add: k_def)
  have s: "sorted_wrt (<) surv" by (rule ordered)
  have fs: "filter where_clause input_fc = surv"
    by (simp add: surv_def SearchCursor_def)
  have ordered': "sorted_wrt (<) (filter where_clause input_fc)"
    using ordered by (simp only: fs)
  have "\<not> (length (filter where_clause input_fc) mod k = 1
      \<and> last (filter where_clause input_fc) = 0)"
    using open_range by (simp add: fs k_def)
  then have "get_oid_ranges_for_input input_fc (int k) where_clause = expected_ranges surv k"
    unfolding fs[symmetric] by (rule get_oid_ranges_expected[OF ordered' k(1)])
  then have rs: "rs = map (chunk_range surv k) [0..<num_chunks (length surv) k]"
    by (simp only: rs_def k(2) expected_ranges_chunks[OF k(1)])
  have 1: "\<forall>r \<in> set rs. fst r \<le> snd r \<and> fst r \<in> set surv \<and> snd r \<in> set surv
            \<and> int (count_in surv r) \<le> max_chunk_size"
    unfolding rs k(2) using chunk_ranges_bounds[OF s k(1)] by auto
  have 2: "sorted_wrt (\<lambda>a b. snd a < fst b) rs"
    unfolding rs by (rule chunk_ranges_ascending[OF s k(1)])
  have 3: "covers rs surv"
    unfolding rs by (rule chunk_ranges_cover[OF s k(1)])
  have 4: "sum_list (map (count_in surv) rs) = length surv"
    unfolding rs by (rule sum_count_in_chunks[OF s k(1)])
  have 5: "length rs \<le> length rs'"
    if "covers rs' surv" "\<forall>r \<in> set rs'. int (count_in surv r) \<le> max_chunk_size" for rs'
  proof -
    have "\<forall>r \<in> set rs'. count_in surv r \<le> k" using that(2) by (simp add: k(2))
    then have "length surv \<le> k * length rs'" by (rule covers_length_bound[OF that(1)])
    then have "num_chunks (length surv) k \<le> length rs'" by (rule num_chunks_least[OF k(1)])
    then show ?thesis by (simp add: rs)
  qed
  have 6: "surv = [] \<longrightarrow> rs = []"
    using k(1) by (simp add: rs num_chunks_def)
  from 1 2 3 4 5 6 show ?thesis by blast
qed

text \<open>
  The theorem at the table with ObjectIDs 1, 2, 3, 4, 5, 8, the where clause excluding 4 and
  chunk size 2: the ranges are [1, 2], [3, 5], [8, 8].
\<close>

theorem oid_ranges_partition_witness:
  "sorted_wrt (<) (SearchCursor [1, 2, 3, 4, 5, 8] (\<lambda>oid. oid \<noteq> 4)) \<and> (1::int) \<le> 2
   \<and> SearchCursor [1, 2, 3, 4, 5, 8] (\<lambda>oid. oid \<noteq> 4) = [1, 2, 3, 5, 8]
   \<and> get_oid_ranges_for_input [1, 2, 3, 4, 5, 8] 2 (\<lambda>oid. oid \<noteq> 4) = [(1, 2), (3, 5), (8, 8)]
   \<and> sum_list (map (count_in (SearchCursor [1, 2, 3, 4, 5, 8] (\<lambda>oid. oid \<noteq> 4)))
        (get_oid_ranges_for_input [1, 2, 3, 4, 5, 8] 2 (\<lambda>oid. oid \<noteq> 4))) = 5
   \<and> covers (get_oid_ranges_for_input [1, 2, 3, 4, 5, 8] 2 (\<lambda>oid. oid \<noteq> 4))
        (SearchCursor [1, 2, 3, 4, 5, 8] (\<lambda>oid. oid \<noteq> 4))"
proof -
  have c: "SearchCursor [1, 2, 3, 4, 5, 8] (\<lambda>oid. oid \<noteq> 4) = [1, 2, 3, 5, 8]"
    by (simp add: SearchCursor_def)
  have a: "sorted_wrt (<) (SearchCursor [1, 2, 3, 4, 5, 8] (\<lambda>oid. oid \<noteq> 4))"
    by (simp add: c)
  have b: "(1::int) \<le> 2" by simp
  have d: "\<not> (length (SearchCursor [1, 2, 3, 4, 5, 8] (\<lambda>oid. oid \<noteq> 4)) mod nat 2 = 1
      \<and> last (SearchCursor [1, 2, 3, 4, 5, 8] (\<lambda>oid. oid \<noteq> 4)) = 0)"
    by (simp add: c)
  have e: "get_oid_ranges_for_input [1, 2, 3, 4, 5, 8] 2 (\<lambda>oid. oid \<noteq> 4) = [(1, 2), (3, 5), (8, 8)]"
    by (simp add: get_oid_ranges_for_input_def c oid_init_def oid_step_def)
  show ?thesis
    using oid_ranges_partition[OF a b d] a c e by simp
qed

text \<open>
  The input on which the closing test fails: the ordered sequence consisting of the single
  ObjectID 0, with chunk size 2. When the loop ends one identifier has been counted into the
  open range [0, 0], so a range is still open; it equals the reset value, the test
  \<open>current_range != [0, 0]\<close> is false, nothing is returned, and the identifier is not
  covered. The comment above the test announces that the last range is closed out if one is
  still open.
\<close>

theorem oid_ranges_zero_counterexample:
  "sorted_wrt (<) [0 :: int] \<and> (1::int) \<le> 2
   \<and> SearchCursor [0] (\<lambda>_. True) = [0]
   \<and> num_in_range (foldl (oid_step 2) oid_init [0]) = 1
   \<and> current_range (foldl (oid_step 2) oid_init [0]) = (0, 0)
   \<and> get_oid_ranges_for_input [0] 2 (\<lambda>_. True) = []
   \<and> \<not> covers (get_oid_ranges_for_input [0] 2 (\<lambda>_. True)) (SearchCursor [0] (\<lambda>_. True))
   \<and> sum_list (map (count_in (SearchCursor [0] (\<lambda>_. True)))
         (get_oid_ranges_for_input [0] 2 (\<lambda>_. True)))
       \<noteq> length (SearchCursor [0] (\<lambda>_. True))"
  by (simp add: get_oid_ranges_for_input_def SearchCursor_def oid_init_def oid_step_def covers_def)

text \<open>
  Claim C10. The reset value [0, 0] marks "no open range". When no surviving identifier is 0
  the result is exactly the full chunks followed by the final partial chunk; when the only
  surviving identifier is 0 and the chunk size is at least 2 the result is empty.
\<close>

theorem oid_ranges_sentinel:
  "(1 \<le> max_chunk_size \<longrightarrow> 0 \<notin> set (SearchCursor input_fc where_clause) \<longrightarrow>
      get_oid_ranges_for_input input_fc max_chunk_size where_clause
        = expected_ranges (SearchCursor input_fc where_clause) (nat max_chunk_size))
   \<and> (2 \<le> max_chunk_size \<longrightarrow> SearchCursor input_fc where_clause = [0] \<longrightarrow>
      get_oid_ranges_for_input input_fc max_chunk_size where_clause = [])"
proof (intro conjI impI)
  assume "1 \<le> max_chunk_size" "0 \<notin> set (SearchCursor input_fc where_clause)"
  then show "get_oid_ranges_for_input input_fc max_chunk_size where_clause
        = expected_ranges (SearchCursor input_fc where_clause) (nat max_chunk_size)"
    using get_oid_ranges_nonzero[of "nat max_chunk_size" where_clause input_fc]
    by (simp add: SearchCursor_def)
next
  assume "2 \<le> max_chunk_size" "SearchCursor input_fc where_clause = [0]"
  then show "get_oid_ranges_for_input input_fc max_chunk_size where_clause = []"
    by (simp add: get_oid_ranges_for_input_def oid_init_def oid_step_def)
qed

text \<open>
  Both parts at concrete inputs: ObjectIDs 1, 2, 3 with chunk size 2, and a table whose only
  surviving ObjectID is 0.
\<close>

theorem oid_ranges_sentinel_witness:
  "get_oid_ranges_for_input [1, 2, 3] 2 (\<lambda>_. True) = [(1, 2), (3, 3)]
   \<and> expected_ranges [1, 2, 3] 2 = [(1, 2), (3, 3)]
   \<and> get_oid_ranges_for_input [0, 1] 2 (\<lambda>oid. oid \<noteq> 1) = []"
proof -
  have c: "SearchCursor [1, 2, 3] (\<lambda>_. True) = [1, 2, 3]"
     "SearchCursor [0, 1] (\<lambda>oid. oid \<noteq> 1) = [0]"
    by (simp_all add: SearchCursor_def)
  have e: "expected_ranges [1, 2, 3] 2 = [(1, 2), (3, 3)]"
    by (simp add: expected_ranges_def full_range_def tail_range_def)
  show ?thesis
    using oid_ranges_sentinel[of 2 "[1, 2, 3]" "\<lambda>_. True"]
      oid_ranges_sentinel[of 2 "[0, 1]" "\<lambda>oid. oid \<noteq> 1"] c e
    by simp
qed

section \<open>Properties of the scheduler and the aggregators\<close>

subsection \<open>Collecting the results of the jobs\<close>

text \<open>
  The loop over the completed jobs either sees only results, and then logs each job and
  keeps the output file of each successful one, or stops at the first result whose
  retrieval raises.
\<close>

lemma collect_returns:
  "collect self n w (map Inr rs) =
      Inr (self\<lparr>od_line_files := od_line_files self @ map outputLines (filter solveSucceeded rs)\<rparr>,
           w\<lparr>LOGGER := LOGGER w @ jobs_log n (total_jobs self) rs\<rparr>)"
  by (induction rs arbitrary: self n w) (simp_all add: Let_def log_main_def job_log_def)

lemma collect_raises:
  "collect self n w (map Inr rs @ Inl e # rest) =
      Inl (e, self\<lparr>od_line_files := od_line_files self @ map outputLines (filter solveSucceeded rs)\<rparr>,
           w\<lparr>LOGGER := LOGGER w @ jobs_log n (total_jobs self) rs
             @ (INFO, progress_message (Suc (n + length rs)) (total_jobs self))
             # (ERROR, result_error_message)
             # map (Pair ERROR) (traceback_lines e)\<rparr>)"
  by (induction rs arbitrary: self n w) (simp_all add: Let_def log_main_def job_log_def log_traceback_def)

subsection \<open>Post-processing and the log\<close>

text \<open>
  Both aggregators read the result files, the tables and the calculator; what they write
  onto Origins or into the output file does not depend on the records already in the log.
\<close>

lemma w_df_update [simp]:
  "w_df self (w\<lparr>LOGGER := l\<rparr>) = w_df self w"
  "w_df self (w\<lparr>io_trace := t\<rparr>) = w_df self w"
  by (simp_all add: w_df_def)

lemma Weight_update [simp]:
  "Weight self (w\<lparr>LOGGER := l\<rparr>) = Weight self w"
  "Weight self (w\<lparr>io_trace := t\<rparr>) = Weight self w"
  by (rule ext, simp add: Weight_def)+

lemma join_weights_update [simp]:
  "join_weights self (w\<lparr>LOGGER := l\<rparr>) = join_weights self w"
  "join_weights self (w\<lparr>io_trace := t\<rparr>) = join_weights self w"
  by (rule ext, simp add: join_weights_def)+

lemma total_dests_update [simp]:
  "total_dests self (w\<lparr>LOGGER := l\<rparr>) = total_dests self w"
  "total_dests self (w\<lparr>io_trace := t\<rparr>) = total_dests self w"
  by (simp_all add: total_dests_def)

lemma accessibility_outputs_char:
  "calculate_accessibility_matrix_outputs self w =
     (case read_all (read_pairs (result_files w)) (od_line_files self) of
        Inl e \<Rightarrow> Inl (e, w\<lparr>LOGGER := LOGGER w @ take 2 (accessibility_log self)\<rparr>)
      | Inr dfs \<Rightarrow>
          (case foldl add_file None dfs of
             None \<Rightarrow> Inl (Raised ''AttributeError'' [],
                          w\<lparr>LOGGER := LOGGER w @ take 2 (accessibility_log self)\<rparr>)
           | Some result_df \<Rightarrow>
               Inr (w\<lparr>origins_fields := Some (accessibility_rows self w result_df),
                      LOGGER := LOGGER w @ accessibility_log self,
                      io_trace := io_trace w @ map ReadCsv (od_line_files self)\<rparr>)))"
  by (simp add: calculate_accessibility_matrix_outputs_def Let_def log_main_def accessibility_log_def
        accessibility_rows_def split: sum.splits option.splits prod.splits)

lemma accessibility_same_data:
  assumes "same_data w1 w2"
  shows "rel_sum (\<lambda>a b. fst a = fst b \<and> same_data (snd a) (snd b)) same_data
           (calculate_accessibility_matrix_outputs self w1)
           (calculate_accessibility_matrix_outputs self w2)"
proof -
  have "w_df self w1 = w_df self w2" using assms by (simp add: w_df_def same_data_def)
  then have "Weight self w1 = Weight self w2" by (intro ext) (simp add: Weight_def)
  then have j: "join_weights self w1 = join_weights self w2" by (intro ext) (simp add: join_weights_def)
  have t: "total_dests self w1 = total_dests self w2"
    using assms by (simp add: total_dests_def w_df_def same_data_def)
  have "accessibility_rows self w1 = accessibility_rows self w2"
    using assms by (intro ext) (simp add: accessibility_rows_def j t same_data_def)
  then show ?thesis
    using assms
    by (simp add: accessibility_outputs_char same_data_def split: sum.splits option.splits)
qed

lemma same_data_log_main:
  "same_data (log_main lv msg w1) w2 = same_data w1 w2"
  "same_data w1 (log_main lv msg w2) = same_data w1 w2"
  by (simp_all add: same_data_def log_main_def)

lemma travel_time_loop_same_data:
  assumes "same_data w1 w2"
  shows "rel_sum (\<lambda>a b. fst a = fst b \<and> same_data (snd a) (snd b))
           (\<lambda>a b. fst a = fst b \<and> same_data (snd a) (snd b))
           (travel_time_loop files out rs (first, w1)) (travel_time_loop files out rs (first, w2))"
  using assms
proof (induction rs arbitrary: first w1 w2)
  case Nil
  then show ?case by simp
next
  case (Cons r rs)
  have r: "result_files w1 = result_files w2" using Cons.prems by (simp add: same_data_def)
  show ?case
  proof (cases "files_for_origin_range files r = []")
    case True
    then show ?thesis using Cons.IH[OF Cons.prems] by simp
  next
    case False
    show ?thesis
    proof (cases "read_all (read_times (result_files w2)) (files_for_origin_range files r)")
      case (Inl e)
      then show ?thesis using False r Cons.prems by simp
    next
      case (Inr dfs)
      let ?upd = "\<lambda>w. (let w1 = w\<lparr>io_trace := io_trace w @ map ReadCsv (files_for_origin_range files r)\<rparr>
                 in if first
                    then w1\<lparr>out_csv := Some (stats_header, agg_stats (concat dfs)),
                            io_trace := io_trace w1 @ [CreateCsv out]\<rparr>
                    else w1\<lparr>out_csv := (case out_csv w1 of
                                           None \<Rightarrow> Some ([], agg_stats (concat dfs))
                                         | Some (h, rows) \<Rightarrow> Some (h, rows @ agg_stats (concat dfs))),
                            io_trace := io_trace w1 @ [AppendCsv out]\<rparr>)"
      have sd: "same_data (?upd w1) (?upd w2)"
        using Cons.prems by (simp add: same_data_def Let_def)
      have "travel_time_loop files out (r # rs) (first, w1) = travel_time_loop files out rs (False, ?upd w1)"
        using False r Inr by (simp add: Let_def)
      moreover have "travel_time_loop files out (r # rs) (first, w2) = travel_time_loop files out rs (False, ?upd w2)"
        using False r Inr by (simp add: Let_def)
      ultimately show ?thesis using Cons.IH[OF sd] by simp
    qed
  qed
qed

lemma travel_time_outputs_char:
  "calculate_travel_time_statistics_outputs self w =
     (case travel_time_loop (od_line_files self) (out_csv_file self) (origin_ranges self)
             (True, travel_time_prepare self w) of
        Inl e \<Rightarrow> Inl e
      | Inr st \<Rightarrow>
          Inr (log_main INFO (''Travel time statistics written to '' @ out_csv_file self @ ''.'')
                (log_main DEBUG ''Time to read all OD result files and calculate statistics'' (snd st))))"
  by (simp add: calculate_travel_time_statistics_outputs_def travel_time_prepare_def Let_def
        split: sum.splits prod.splits)

lemma travel_time_same_data:
  assumes "same_data w1 w2"
  shows "rel_sum (\<lambda>a b. fst a = fst b \<and> same_data (snd a) (snd b)) same_data
           (calculate_travel_time_statistics_outputs self w1)
           (calculate_travel_time_statistics_outputs self w2)"
proof -
  have "same_data (travel_time_prepare self w1) (travel_time_prepare self w2)"
    using assms by (simp add: same_data_def log_main_def Let_def travel_time_prepare_def)
  from travel_time_loop_same_data[OF this, of "od_line_files self" "out_csv_file self" "origin_ranges self" True]
  show ?thesis
    by (cases "travel_time_loop (od_line_files self) (out_csv_file self) (origin_ranges self)
             (True, travel_time_prepare self w1)";
        cases "travel_time_loop (od_line_files self) (out_csv_file self) (origin_ranges self)
             (True, travel_time_prepare self w2)")
       (simp_all add: travel_time_outputs_char same_data_log_main)
qed

lemma post_process_outputs:
  assumes "sort (od_line_files s1) = sort (od_line_files s2)"
    and "s1\<lparr>od_line_files := []\<rparr> = s2\<lparr>od_line_files := []\<rparr>"
    and "same_data w1 w2"
  shows "aggregated_output (post_process s1 w1) = aggregated_output (post_process s2 w2)"
proof -
  have e: "od_line_files s1 = [] \<longleftrightarrow> od_line_files s2 = []"
    using assms(1) by (metis length_0_conv length_sort)
  have "s1\<lparr>od_line_files := sort (od_line_files s1)\<rparr>
      = (s1\<lparr>od_line_files := []\<rparr>)\<lparr>od_line_files := sort (od_line_files s1)\<rparr>" by simp
  also have "\<dots> = (s2\<lparr>od_line_files := []\<rparr>)\<lparr>od_line_files := sort (od_line_files s2)\<rparr>"
    by (simp only: assms(1,2))
  finally have s: "s1\<lparr>od_line_files := sort (od_line_files s1)\<rparr> = s2\<lparr>od_line_files := sort (od_line_files s2)\<rparr>"
    by simp
  have o: "outputs_of w1 = outputs_of w2" using assms(3) by (simp add: outputs_of_def same_data_def)
  have o': "same_data a b \<Longrightarrow> outputs_of a = outputs_of b" for a b
    by (simp add: outputs_of_def same_data_def)
  show ?thesis
  proof (cases "od_line_files s1 = []")
    case True
    then show ?thesis using e o
      by (simp add: post_process_def aggregated_output_def outputs_of_def log_main_def)
  next
    case False
    let ?s = "s2\<lparr>od_line_files := sort (od_line_files s2)\<rparr>"
    show ?thesis
    proof (cases "tool (od_inputs ?s)")
      case CalculateAccessibilityMatrix
      then show ?thesis
        using False e s o accessibility_same_data[OF assms(3), of ?s]
        by (auto simp: post_process_def aggregated_output_def Let_def log_main_def outputs_of_def same_data_def
              elim!: rel_sum.cases split: sum.splits)
    next
      case CalculateTravelTimeStatistics
      then show ?thesis
        using False e s o travel_time_same_data[OF assms(3), of ?s]
        by (auto simp: post_process_def aggregated_output_def Let_def log_main_def outputs_of_def same_data_def
              elim!: rel_sum.cases split: sum.splits)
    qed
  qed
qed

subsection \<open>The run as a whole\<close>

lemma futures_cases:
  fixes futures :: "('e + 'r) list"
  obtains (returned) rs where "futures = map Inr rs"
        | (raised) rs e rest where "futures = map Inr rs @ Inl e # rest"
proof (induction futures arbitrary: thesis)
  case Nil
  then show ?case by (metis list.simps(8))
next
  case (Cons f fs)
  show ?case
  proof (cases f)
    case (Inl e)
    then have "f # fs = map Inr [] @ Inl e # fs" by simp
    then show ?thesis by (rule Cons.prems(2))
  next
    case (Inr r)
    show ?thesis
    proof (rule Cons.IH)
      fix rs assume "fs = map Inr rs"
      then have "f # fs = map Inr (r # rs)" using Inr by simp
      then show thesis by (rule Cons.prems(1))
    next
      fix rs e rest assume "fs = map Inr rs @ Inl e # rest"
      then have "f # fs = map Inr (r # rs) @ Inl e # rest" using Inr by simp
      then show thesis by (rule Cons.prems(2))
    qed
  qed
qed

lemma validate_passes:
  "validate_od_settings None w =
     Inr (w\<lparr>LOGGER := LOGGER w @ [(DEBUG, ''Validating OD Cost Matrix settings...''),
                                    (DEBUG, ''OD Cost Matrix settings successfully validated.'')]\<rparr>)"
  by (simp add: validate_od_settings_def log_main_def)

lemma same_data_LOGGER:
  "same_data (w\<lparr>LOGGER := l\<rparr>) (w\<lparr>LOGGER := l'\<rparr>)"
  by (simp add: same_data_def)

lemma outputs_of_cleanup:
  "outputs_of (cleanup rmtree self w) = outputs_of w"
  by (simp add: cleanup_def outputs_of_def log_main_def Let_def)

lemma aggregated_output_raised:
  "aggregated_output
     (solve_od_in_parallel rmtree validation (map Inr rs @ Inl e # rest) self w) = outputs_of w"
  by (cases validation)
     (simp_all add: solve_od_in_parallel_def validate_od_settings_def collect_raises log_main_def
        log_traceback_def aggregated_output_def outputs_of_def Let_def)

lemma aggregated_output_returned:
  "aggregated_output (solve_od_in_parallel rmtree None (map Inr rs) self w)
     = aggregated_output
         (post_process (self\<lparr>od_line_files := od_line_files self @ map outputLines (filter solveSucceeded rs)\<rparr>)
            w)"
proof -
  let ?self1 = "self\<lparr>od_line_files := od_line_files self @ map outputLines (filter solveSucceeded rs)\<rparr>"
  define l where "l = LOGGER w @ [(DEBUG, ''Validating OD Cost Matrix settings...''),
         (DEBUG, ''OD Cost Matrix settings successfully validated.''),
         (INFO, ''Solving OD Cost Matrix in parallel ('' @ str_nat (total_jobs self) @ '' chunks)...'')]
       @ jobs_log 0 (total_jobs self) rs"
  have c: "solve_od_in_parallel rmtree None (map Inr rs) self w =
      (case post_process ?self1 (w\<lparr>LOGGER := l\<rparr>) of
         Inl err \<Rightarrow> Inl err
       | Inr (self2, w3) \<Rightarrow> Inr (self2, cleanup rmtree self2 w3))"
    unfolding l_def
    by (simp add: solve_od_in_parallel_def validate_passes collect_returns log_main_def Let_def)
  have "same_data (w\<lparr>LOGGER := l\<rparr>) w" by (simp add: same_data_def)
  then have p: "aggregated_output (post_process ?self1 (w\<lparr>LOGGER := l\<rparr>))
      = aggregated_output (post_process ?self1 w)"
    by (intro post_process_outputs) simp_all
  show ?thesis
    unfolding c p[symmetric]
    by (cases "post_process ?self1 (w\<lparr>LOGGER := l\<rparr>)")
       (auto simp: aggregated_output_def outputs_of_cleanup)
qed



subsection \<open>Failed solves, failed retrieval, and runs without a result file\<close>

lemma jobs_log_info:
  "(INFO, m) \<in> set (jobs_log n t rs) \<Longrightarrow> \<exists>k. m = progress_message k t"
  by (induction rs arbitrary: n) (auto simp: job_log_def split: if_splits)

lemma progress_not_start:
  "progress_message k t \<noteq> accessibility_start_message"
  "progress_message k t \<noteq> travel_time_start_message"
  by (simp_all add: progress_message_def accessibility_start_message_def travel_time_start_message_def)

lemma failed_solve_job_result:
  assumes "\<not> engine_succeeded sr"
  shows "solve_od_cost_matrix ins uuid files sr chunk =
     ((job_result (ODCostMatrix_init ins uuid))
        \<lparr>solveMessages := join [CHR 0x0A] (consolidate (solverMessages sr))\<rparr>, files)"
  using assms
  by (simp add: solve_od_cost_matrix_def solve_def Let_def add_log_def)

text \<open>
  Claim C4. When the routing engine reports that the solve of a chunk did not succeed,
  \<open>solve_od_cost_matrix\<close> returns the job result (it has no raising branch) with
  \<open>solveSucceeded\<close> false, the consolidated solver messages as diagnostic text and
  \<open>outputLines\<close> still empty, and the files on disk are unchanged, so no result file has
  been written. The scheduler then logs the progress at INFO and the failure and its
  messages at DEBUG, appends nothing to \<open>od_line_files\<close>, and goes on with the remaining
  jobs; the aggregated output of the run is the one of the run without this job.
\<close>

theorem failed_solve_is_routine:
  assumes "\<not> engine_succeeded sr"
  shows "solveSucceeded (fst (solve_od_cost_matrix ins uuid files sr chunk)) = False
     \<and> solveMessages (fst (solve_od_cost_matrix ins uuid files sr chunk))
         = join [CHR 0x0A] (consolidate (solverMessages sr))
     \<and> outputLines (fst (solve_od_cost_matrix ins uuid files sr chunk)) = []
     \<and> snd (solve_od_cost_matrix ins uuid files sr chunk) = files
     \<and> collect self n w (Inr (fst (solve_od_cost_matrix ins uuid files sr chunk)) # rest)
         = collect self (Suc n)
             (w\<lparr>LOGGER := LOGGER w @
                  [(INFO, progress_message (Suc n) (total_jobs self)),
                   (DEBUG, solve_failed_message (fst (solve_od_cost_matrix ins uuid files sr chunk))),
                   (DEBUG, solveMessages (fst (solve_od_cost_matrix ins uuid files sr chunk)))]\<rparr>)
             rest
     \<and> aggregated_output (solve_od_in_parallel rmtree validation
            (Inr (fst (solve_od_cost_matrix ins uuid files sr chunk)) # rest) self w)
         = aggregated_output (solve_od_in_parallel rmtree validation rest self w)"
proof -
  let ?jr = "fst (solve_od_cost_matrix ins uuid files sr chunk)"
  have jr: "?jr = (job_result (ODCostMatrix_init ins uuid))
        \<lparr>solveMessages := join [CHR 0x0A] (consolidate (solverMessages sr))\<rparr>"
    and fs: "snd (solve_od_cost_matrix ins uuid files sr chunk) = files"
    by (simp_all add: failed_solve_job_result[OF assms])
  have f: "solveSucceeded ?jr = False" "outputLines ?jr = []"
      "solveMessages ?jr = join [CHR 0x0A] (consolidate (solverMessages sr))"
    by (simp_all add: jr ODCostMatrix_init_def Let_def)
  have c: "collect self n w (Inr ?jr # rest)
         = collect self (Suc n)
             (w\<lparr>LOGGER := LOGGER w @
                  [(INFO, progress_message (Suc n) (total_jobs self)),
                   (DEBUG, solve_failed_message ?jr), (DEBUG, solveMessages ?jr)]\<rparr>) rest"
    using f(1) by (simp add: Let_def log_main_def)
  have a: "aggregated_output (solve_od_in_parallel rmtree validation (Inr ?jr # rest) self w)
         = aggregated_output (solve_od_in_parallel rmtree validation rest self w)"
  proof (cases validation)
    case (Some e)
    then show ?thesis by (simp add: solve_od_in_parallel_def validate_od_settings_def)
  next
    case None
    show ?thesis
    proof (cases rest rule: futures_cases)
      case (returned rs)
      have "Inr ?jr # rest = map Inr (?jr # rs)" using returned by simp
      then show ?thesis
        unfolding None returned
        by (simp only: aggregated_output_returned) (simp add: f(1))
    next
      case (raised rs e rest')
      have "Inr ?jr # rest = map Inr (?jr # rs) @ Inl e # rest'" using raised by simp
      then show ?thesis
        unfolding raised by (simp only: aggregated_output_raised)
    qed
  qed
  from f fs c a show ?thesis by simp
qed

text \<open>
  Claim C7. When the retrieval of the result of a job raises, after any number of jobs whose
  results were retrieved, the run raises that same exception: the last records of the log
  are the error message followed by the lines of the traceback at ERROR, no aggregator has
  run (the statistics fields and the output file are as before), and the jobs after the
  failing one are not looked at.
\<close>

theorem result_error_is_fatal:
  "\<exists>self' w' older.
     solve_od_in_parallel rmtree None (map Inr rs @ Inl e # rest) self w = Inl (e, self', w')
     \<and> LOGGER w' = older @ (ERROR, result_error_message) # map (Pair ERROR) (traceback_lines e)
     \<and> outputs_of w' = outputs_of w"
  by (simp add: solve_od_in_parallel_def validate_passes collect_raises log_main_def Let_def
        outputs_of_def)

text \<open>
  Claim C9. When every job returned a result, none of them successful, and the list of
  result files is empty, the run returns normally with the calculator unchanged. Nothing
  has been written onto Origins or into the output file and no file was read or written;
  the log has gained a record at WARNING saying that all solves failed, and neither
  aggregator has logged its start.
\<close>

theorem no_result_file_warns:
  assumes "od_line_files self = []" and "list_all (\<lambda>result. \<not> solveSucceeded result) results"
  shows "\<exists>w' new.
     solve_od_in_parallel rmtree None (map Inr results) self w = Inr (self, w')
     \<and> outputs_of w' = outputs_of w \<and> io_trace w' = io_trace w
     \<and> LOGGER w' = LOGGER w @ new
     \<and> (WARNING, all_failed_warning) \<in> set new
     \<and> (INFO, accessibility_start_message) \<notin> set new
     \<and> (INFO, travel_time_start_message) \<notin> set new"
proof -
  have none: "filter solveSucceeded results = []"
    using assms(2) by (induction results) auto
  define new where "new = [(DEBUG, ''Validating OD Cost Matrix settings...''),
         (DEBUG, ''OD Cost Matrix settings successfully validated.''),
         (INFO, ''Solving OD Cost Matrix in parallel ('' @ str_nat (total_jobs self) @ '' chunks)...'')]
       @ jobs_log 0 (total_jobs self) results
       @ [(WARNING, all_failed_warning), (INFO, ''Deleting intermediate outputs...''),
          (INFO, ''Finished calculating OD Cost Matrices.'')]"
  have s: "self\<lparr>od_line_files := []\<rparr> = self" using assms(1) by simp
  have run: "solve_od_in_parallel rmtree None (map Inr results) self w
      = Inr (self, w\<lparr>result_files := rmtree (scratch_folder (od_inputs self)) (result_files w),
                       LOGGER := LOGGER w @ new\<rparr>)"
    unfolding new_def
    by (simp add: solve_od_in_parallel_def validate_passes collect_returns none assms(1) s
          post_process_def cleanup_def DELETE_INTERMEDIATE_OD_OUTPUTS_def log_main_def Let_def)
  have w: "(WARNING, all_failed_warning) \<in> set new" by (simp add: new_def)
  have a: "(INFO, m) \<in> set new \<Longrightarrow>
      m = ''Solving OD Cost Matrix in parallel ('' @ str_nat (total_jobs self) @ '' chunks)...''
      \<or> (\<exists>k. m = progress_message k (total_jobs self))
      \<or> m = ''Deleting intermediate outputs...'' \<or> m = ''Finished calculating OD Cost Matrices.''" for m
    unfolding new_def using jobs_log_info[of m 0 "total_jobs self" results] by auto
  have n1: "(INFO, accessibility_start_message) \<notin> set new"
  proof
    assume "(INFO, accessibility_start_message) \<in> set new"
    from a[OF this] show False
      using progress_not_start(1)[symmetric]
      by (auto simp: accessibility_start_message_def)
  qed
  have n2: "(INFO, travel_time_start_message) \<notin> set new"
  proof
    assume "(INFO, travel_time_start_message) \<in> set new"
    from a[OF this] show False
      using progress_not_start(2)[symmetric]
      by (auto simp: travel_time_start_message_def)
  qed
  show ?thesis
    using run w n1 n2 by (intro exI[of _ "w\<lparr>result_files := rmtree (scratch_folder (od_inputs self)) (result_files w),
                       LOGGER := LOGGER w @ new\<rparr>"] exI[of _ new]) (simp add: outputs_of_def)
qed

subsection \<open>The combined table of reach counts\<close>

text \<open>
  Concatenating the result files one by one and grouping after each step leaves every pair
  of the files exactly once, with the number of files that contain it.
\<close>

lemma map_of_tabulate:
  "map_of (map (\<lambda>k. (k, f k)) ks) k = (if k \<in> set ks then Some (f k) else None)"
  by (induction ks) auto


lemma map_of_groupby_sum:
  "map_of (groupby_sum rows) k =
     (if k \<in> fst ` set rows then Some (sum_list (map snd (filter (\<lambda>r. fst r = k) rows))) else None)"
  by (simp add: groupby_sum_def map_of_tabulate)







lemma read_all_pairs:
  assumes "\<forall>f \<in> set fs. \<exists>rows. files f = Some (PairRows rows)"
  shows "read_all (read_pairs files) fs = Inr (map (pair_rows files) fs)"
  using assms by (induction fs) (auto simp: read_pairs_def pair_rows_def)

subsection \<open>The rows written onto Origins\<close>

lemma foldl_add_perc:
  "foldl (add_perc self result_df denom) (names, df) ps =
     (names @ concat (map (\<lambda>p. [total_field p, perc_field p]) ps),
      df\<lparr>df_columns := df_columns df @ concat (map (perc_columns self result_df denom) ps)\<rparr>)"
  by (induction ps arbitrary: names df) (simp_all add: add_perc_def perc_columns_def Let_def)

lemma build_output_char:
  "build_output self result_df denom =
     (field_names,
      \<lparr>df_index = remdups (map fst result_df),
       df_columns = map (\<lambda>(name, col). (name, \<lambda>oid. fillna0 (col oid))) (raw_columns self result_df denom)\<rparr>)"
  by (simp add: build_output_def Let_def foldl_add_perc field_names_def raw_columns_def)

lemma raw_columns_names:
  "map fst (raw_columns self result_df denom) = field_names"
  by (simp add: raw_columns_def field_names_def Let_def perc_columns_def map_concat comp_def)

lemma zip_names_values:
  "zip (map fst cols) (map (\<lambda>(name, col). g col) cols) = map (\<lambda>(name, col). (name, g col)) cols"
  by (induction cols) auto

lemma zip_replicate:
  "zip xs (replicate (length xs) c) = map (\<lambda>x. (x, c)) xs"
  by (induction xs) auto

lemma update_row_char:
  "map_of (update_rows field_names
      \<lparr>df_index = idx,
       df_columns = map (\<lambda>(name, col). (name, \<lambda>oid. fillna0 (col oid))) (raw_columns self result_df denom)\<rparr>
      oids) oid =
   (if oid \<in> set oids
    then Some (if oid \<in> set idx
               then map (\<lambda>(name, col). (name, fillna0 (col oid))) (raw_columns self result_df denom)
               else map (\<lambda>name. (name, Num 0)) field_names)
    else None)"
proof -
  let ?cols = "raw_columns self result_df denom"
  have v: "map ((\<lambda>(name, col). col oid) \<circ> (\<lambda>(name, col). (name, \<lambda>oid. fillna0 (col oid)))) ?cols
         = map (\<lambda>(name, col). fillna0 (col oid)) ?cols"
    by (rule map_cong) auto
  have "zip field_names (map (\<lambda>(name, col). fillna0 (col oid)) ?cols)
      = map (\<lambda>(name, col). (name, fillna0 (col oid))) ?cols"
    using zip_names_values[of ?cols "\<lambda>col. fillna0 (col oid)"] by (simp add: raw_columns_names)
  moreover have "zip field_names (replicate (length field_names) (Num 0)) = map (\<lambda>name. (name, Num 0)) field_names"
    by (rule zip_replicate)
  ultimately show ?thesis
    by (simp add: update_rows_def map_of_tabulate loc_def v)
qed

lemma field_names_eval:
  "field_names = [''TotalDests'', ''PercDests'', ''DsAL10Perc'', ''PsAL10Perc'', ''DsAL20Perc'',
     ''PsAL20Perc'', ''DsAL30Perc'', ''PsAL30Perc'', ''DsAL40Perc'', ''PsAL40Perc'', ''DsAL50Perc'',
     ''PsAL50Perc'', ''DsAL60Perc'', ''PsAL60Perc'', ''DsAL70Perc'', ''PsAL70Perc'', ''DsAL80Perc'',
     ''PsAL80Perc'', ''DsAL90Perc'', ''PsAL90Perc'']"
  by code_simp

lemma distinct_field_names: "distinct field_names"
  unfolding field_names_eval by simp

lemma aligned_groupby_sum:
  "fillna0 (aligned (groupby_sum X) oid) = Num (sum_list (map snd (filter (\<lambda>r. fst r = oid) X)))"
proof (cases "oid \<in> fst ` set X")
  case True
  then show ?thesis by (simp add: aligned_def map_of_groupby_sum)
next
  case False
  then have "filter (\<lambda>r. fst r = oid) X = []" by (auto simp: filter_empty_conv)
  then show ?thesis using False by (simp add: aligned_def map_of_groupby_sum)
qed

lemma perc_of_aligned:
  "fillna0 (cell_perc (aligned (groupby_sum X) oid) denom)
     = fillna0 (cell_perc (Num (sum_list (map snd (filter (\<lambda>r. fst r = oid) X)))) denom)"
proof (cases "oid \<in> fst ` set X")
  case True
  then show ?thesis by (simp add: aligned_def map_of_groupby_sum)
next
  case False
  then have "filter (\<lambda>r. fst r = oid) X = []" by (auto simp: filter_empty_conv)
  then show ?thesis using False by (simp add: aligned_def map_of_groupby_sum)
qed

lemma weighted_sum_origin:
  "sum_list (map snd (filter (\<lambda>r. fst r = oid)
      (map (\<lambda>(o_id, times, wt). (o_id, skipna wt))
         (filter (\<lambda>(o_id, times, wt). cond times) (join_weights self w result_df)))))
   = origin_weight self w result_df oid cond"
  by (induction result_df) (auto simp: join_weights_def origin_weight_def)

lemma total_column_value:
  "fillna0 (aligned (weight_sum_by_origin (join_weights self w result_df) cond) oid)
     = Num (origin_weight self w result_df oid cond)"
  by (simp add: weight_sum_by_origin_def aligned_groupby_sum weighted_sum_origin)

lemma perc_column_value:
  "fillna0 (cell_perc (aligned (weight_sum_by_origin (join_weights self w result_df) cond) oid) denom)
     = fillna0 (cell_perc (Num (origin_weight self w result_df oid cond)) denom)"
  by (simp add: weight_sum_by_origin_def perc_of_aligned weighted_sum_origin)

lemma origin_weight_absent:
  assumes "oid \<notin> fst ` fst ` set result_df"
  shows "origin_weight self w result_df oid cond = 0"
proof -
  have "filter (\<lambda>((o_id, d_id), times). o_id = oid \<and> cond times) result_df = []"
    using assms by (force simp: filter_empty_conv)
  then show ?thesis by (simp add: origin_weight_def)
qed

lemma join_weights_index:
  "fst ` set (join_weights self w result_df) = fst ` fst ` set result_df"
  by (force simp: join_weights_def)

text \<open>The statistics row of an origin\<close>

lemma stat_row_names: "map fst (stat_row self w result_df oid) = field_names"
  by (simp add: stat_row_def field_names_def Let_def map_concat comp_def)

lemma filled_columns_row:
  "map (\<lambda>(name, col). (name, fillna0 (col oid)))
       (raw_columns self (join_weights self w result_df) (total_dests self w))
     = stat_row self w result_df oid"
  by (simp add: raw_columns_def stat_row_def Let_def perc_columns_def map_concat comp_def
        total_column_value perc_column_value)

lemma stat_row_absent:
  assumes "oid \<notin> fst ` fst ` set result_df"
  shows "stat_row self w result_df oid = map (\<lambda>name. (name, Num 0)) field_names"
  by (simp add: stat_row_def field_names_def Let_def origin_weight_absent[OF assms] map_concat comp_def)

lemma accessibility_rows_lookup:
  "map_of (accessibility_rows self w result_df) oid =
     (if oid \<in> set (origins_rows w) then Some (stat_row self w result_df oid) else None)"
proof (cases "oid \<in> fst ` fst ` set result_df")
  case True
  then show ?thesis
    by (simp add: accessibility_rows_def build_output_char update_row_char join_weights_index
          filled_columns_row)
next
  case False
  then show ?thesis
    by (simp add: accessibility_rows_def build_output_char update_row_char join_weights_index
          stat_row_absent[OF False])
qed

lemma stat_row_fields:
  assumes "perc \<in> set percs"
  shows "map_of (stat_row self w result_df oid) (total_field perc)
           = Some (Num (origin_weight self w result_df oid (\<lambda>times. threshold self perc \<le> of_int times)))"
    and "map_of (stat_row self w result_df oid) (perc_field perc)
           = Some (fillna0 (cell_perc (Num (origin_weight self w result_df oid
                     (\<lambda>times. threshold self perc \<le> of_int times))) (total_dests self w)))"
proof -
  have d: "distinct (map fst (stat_row self w result_df oid))"
    by (simp only: stat_row_names distinct_field_names)
  show "map_of (stat_row self w result_df oid) (total_field perc)
           = Some (Num (origin_weight self w result_df oid (\<lambda>times. threshold self perc \<le> of_int times)))"
    by (rule map_of_is_SomeI[OF d]) (use assms in \<open>auto simp: stat_row_def Let_def\<close>)
  show "map_of (stat_row self w result_df oid) (perc_field perc)
           = Some (fillna0 (cell_perc (Num (origin_weight self w result_df oid
                     (\<lambda>times. threshold self perc \<le> of_int times))) (total_dests self w)))"
    by (rule map_of_is_SomeI[OF d]) (use assms in \<open>auto simp: stat_row_def Let_def\<close>)
qed

subsection \<open>Threshold fields and origins without results\<close>

lemma read_all_readable:
  assumes "\<forall>f \<in> set fs. files f \<noteq> None"
  shows "read_all (read_pairs files) fs = Inr (map (pair_rows files) fs)"
  using assms
  by (induction fs) (auto simp: read_pairs_def pair_rows_def split: option.splits od_lines_file.splits)

lemma groupby_sum_key_set: "fst ` set (groupby_sum rows) = fst ` set rows"
  by (auto simp: groupby_sum_def image_image)

lemma add_file_keys:
  "\<exists>R'. foldl add_file (Some R) ds = Some R' \<and> fst ` set R' = fst ` set R \<union> \<Union> (set ` set ds)"
proof (induction ds arbitrary: R)
  case Nil
  show ?case by simp
next
  case (Cons d ds)
  from Cons.IH[of "groupby_sum (R @ map (\<lambda>k. (k, 1)) d)"]
  show ?case by (auto simp: add_file_def groupby_sum_key_set image_Un image_image)
qed

lemma result_df_keys:
  assumes "dfs \<noteq> []"
  shows "\<exists>R. foldl add_file None dfs = Some R \<and> fst ` set R = \<Union> (set ` set dfs)"
proof -
  obtain d ds where dfs: "dfs = d # ds" using assms by (cases dfs) auto
  from add_file_keys[of "map (\<lambda>k. (k, 1)) d" ds] show ?thesis
    by (auto simp: dfs add_file_def image_image)
qed

lemma accessibility_field_char:
  assumes "od_line_files self \<noteq> []" "\<forall>f \<in> set (od_line_files self). result_files w f \<noteq> None"
    and "oid \<in> set (origins_rows w)"
  shows "\<exists>R. foldl add_file None (map (pair_rows (result_files w)) (od_line_files self)) = Some R
           \<and> accessibility_field self w oid name = map_of (stat_row self w R oid) name"
proof -
  obtain R where R: "foldl add_file None (map (pair_rows (result_files w)) (od_line_files self)) = Some R"
    using result_df_keys[of "map (pair_rows (result_files w)) (od_line_files self)"] assms(1) by auto
  have "accessibility_field self w oid name = map_of (stat_row self w R oid) name"
    using assms(3)
    by (simp add: accessibility_field_def accessibility_outputs_char read_all_readable[OF assms(2)] R
          accessibility_rows_lookup)
  with R show ?thesis by blast
qed




text \<open>
  Claim C6, for a run in which at least one result file exists. Every result file is
  readable. Then an origin of the Origins table that occurs in no result file has a row,
  and each of its statistics fields (\<open>TotalDests\<close>, \<open>PercDests\<close> and the two fields of
  every threshold, listed by \<open>field_names_eval\<close>) holds exactly 0.
\<close>

theorem unreached_origin_zero:
  assumes "od_line_files self \<noteq> []"
    and "\<forall>f \<in> set (od_line_files self). result_files w f \<noteq> None"
    and "oid \<in> set (origins_rows w)"
    and "\<forall>f \<in> set (od_line_files self). oid \<notin> fst ` set (pair_rows (result_files w) f)"
    and "name \<in> set field_names"
  shows "accessibility_field self w oid name = Some (Num 0)"
proof -
  let ?dfs = "map (pair_rows (result_files w)) (od_line_files self)"
  obtain R where R: "foldl add_file None ?dfs = Some R" and k: "fst ` set R = \<Union> (set ` set ?dfs)"
    using result_df_keys[of ?dfs] assms(1) by auto
  have f: "accessibility_field self w oid name = map_of (stat_row self w R oid) name"
    using accessibility_field_char[OF assms(1,2,3), of name] R by simp
  have "oid \<notin> fst ` fst ` set R"
    unfolding k using assms(4) by auto
  then have "stat_row self w R oid = map (\<lambda>name. (name, Num 0)) field_names"
    by (rule stat_row_absent)
  then show ?thesis
    using assms(5) by (simp add: f map_of_tabulate)
qed

subsection \<open>Monotonicity in the threshold\<close>

lemma sum_list_filter_mono:
  fixes f :: "'a \<Rightarrow> rat"
  assumes "\<And>x. P x \<Longrightarrow> Q x" "\<And>x. x \<in> set xs \<Longrightarrow> 0 \<le> f x"
  shows "sum_list (map f (filter P xs)) \<le> sum_list (map f (filter Q xs))"
  using assms(2)
proof (induction xs)
  case Nil
  then show ?case by simp
next
  case (Cons x xs)
  have "sum_list (map f (filter P xs)) \<le> sum_list (map f (filter Q xs))"
    using Cons by simp
  moreover have "0 \<le> f x" using Cons.prems by simp
  ultimately show ?case using assms(1)[of x] by auto
qed

lemma sum_list_filter_nonneg:
  fixes f :: "'a \<Rightarrow> rat"
  assumes "\<And>x. x \<in> set xs \<Longrightarrow> 0 \<le> f x"
  shows "0 \<le> sum_list (map f (filter P xs))"
  using assms by (induction xs) auto

lemma Weight_nonneg:
  assumes "\<forall>d \<in> set (destinations_rows w). 0 \<le> skipna (snd d (weight_field self))"
  shows "0 \<le> skipna (Weight self w d_id)"
proof (cases "weight_field self = []")
  case True
  then show ?thesis by (simp add: Weight_def skipna_def)
next
  case False
  show ?thesis
  proof (cases "map_of (w_df self w) d_id")
    case None
    then show ?thesis using False by (simp add: Weight_def skipna_def)
  next
    case (Some v)
    then have "(d_id, v) \<in> set (w_df self w)" by (rule map_of_SomeD)
    then obtain d where "d \<in> set (destinations_rows w)" "v = snd d (weight_field self)"
      by (auto simp: w_df_def)
    then have "0 \<le> skipna v" using assms by auto
    then show ?thesis using False Some by (simp add: Weight_def)
  qed
qed

lemma total_dests_nonneg:
  assumes "\<forall>d \<in> set (destinations_rows w). 0 \<le> skipna (snd d (weight_field self))"
  shows "0 \<le> total_dests self w"
proof (cases "weight_field self = []")
  case True
  then show ?thesis by (simp add: total_dests_def)
next
  case False
  have "0 \<le> sum_list (map (skipna \<circ> snd) (w_df self w))"
    by (rule sum_list_nonneg) (use assms in \<open>auto simp: w_df_def\<close>)
  then show ?thesis using False by (simp add: total_dests_def)
qed

lemma origin_weight_mono:
  assumes "\<forall>d \<in> set (destinations_rows w). 0 \<le> skipna (snd d (weight_field self))"
    and "\<And>t. cq t \<Longrightarrow> cp t"
  shows "origin_weight self w R oid cq \<le> origin_weight self w R oid cp"
    and "0 \<le> origin_weight self w R oid cq"
proof -
  have nn: "0 \<le> (\<lambda>((o_id, d_id), t). skipna (Weight self w d_id)) x" for x :: "(int \<times> int) \<times> int"
    using Weight_nonneg[OF assms(1)] by (simp add: split_def)
  show "origin_weight self w R oid cq \<le> origin_weight self w R oid cp"
    unfolding origin_weight_def
    by (rule sum_list_filter_mono) (use assms(2) nn in auto)
  show "0 \<le> origin_weight self w R oid cq"
    unfolding origin_weight_def
    by (rule sum_list_filter_nonneg) (rule nn)
qed

lemma perc_cell_mono:
  assumes "0 \<le> b" "b \<le> a" "0 \<le> denom"
  shows "cell_le (fillna0 (cell_perc (Num b) denom)) (fillna0 (cell_perc (Num a) denom))"
proof (cases "denom = 0")
  case True
  then show ?thesis using assms by auto
next
  case False
  then have "0 < denom" using assms(3) by simp
  then have "100 * b / denom \<le> 100 * a / denom"
    using assms(2) by (simp add: divide_le_cancel)
  then show ?thesis using False by simp
qed

lemma threshold_mono:
  assumes "p \<le> q"
  shows "threshold self p \<le> threshold self q"
  using assms by (simp add: threshold_def divide_le_cancel mult_left_mono)

text \<open>
  Claim C8, for weights that are not negative. At least one result file exists and every
  result file is readable. Then for every origin of the Origins table and thresholds
  p \<le> q among 10, 20, ..., 90, the fields of both thresholds hold values, and
  \<open>DsAL{q}Perc\<close> is at most \<open>DsAL{p}Perc\<close> and \<open>PsAL{q}Perc\<close> at most \<open>PsAL{p}Perc\<close>.
\<close>

theorem decile_monotone:
  assumes "od_line_files self \<noteq> []"
    and "\<forall>f \<in> set (od_line_files self). result_files w f \<noteq> None"
    and "\<forall>d \<in> set (destinations_rows w). 0 \<le> skipna (snd d (weight_field self))"
    and "oid \<in> set (origins_rows w)"
    and "p \<in> set percs" and "q \<in> set percs" and "p \<le> q"
  shows "\<exists>a b c d.
      accessibility_field self w oid (total_field p) = Some a
    \<and> accessibility_field self w oid (total_field q) = Some b \<and> cell_le b a
    \<and> accessibility_field self w oid (perc_field p) = Some c
    \<and> accessibility_field self w oid (perc_field q) = Some d \<and> cell_le d c"
proof -
  obtain R where f: "\<And>name. accessibility_field self w oid name = map_of (stat_row self w R oid) name"
    using accessibility_field_char[OF assms(1,2,4)] by (metis option.inject)
  let ?ow = "\<lambda>perc. origin_weight self w R oid (\<lambda>times. threshold self perc \<le> of_int times)"
  have imp: "threshold self q \<le> of_int t \<Longrightarrow> threshold self p \<le> of_int t" for t
    using threshold_mono[OF assms(7), of self] by simp
  have le: "?ow q \<le> ?ow p" and nn: "0 \<le> ?ow q"
    using origin_weight_mono[OF assms(3), of "\<lambda>times. threshold self q \<le> of_int times"
        "\<lambda>times. threshold self p \<le> of_int times" R oid] imp by auto
  have "cell_le (Num (?ow q)) (Num (?ow p))" using le by simp
  moreover have "cell_le (fillna0 (cell_perc (Num (?ow q)) (total_dests self w)))
                         (fillna0 (cell_perc (Num (?ow p)) (total_dests self w)))"
    using nn le total_dests_nonneg[OF assms(3)] by (rule perc_cell_mono)
  ultimately show ?thesis
    by (simp add: f stat_row_fields[OF assms(5)] stat_row_fields[OF assms(6)])
qed

subsection \<open>Travel time statistics by origin range\<close>









section \<open>Worked examples\<close>

subsection \<open>Accessibility statistics\<close>


text \<open>
  One result file holding the pair (1, 7): origin 2 occurs in no result file and gets
  zeros.
\<close>

theorem unreached_origin_zero_witness:
  "accessibility_field one_file_calculator one_file_world 2 ''TotalDests'' = Some (Num 0)
   \<and> accessibility_field one_file_calculator one_file_world 2 ''PercDests'' = Some (Num 0)
   \<and> accessibility_field one_file_calculator one_file_world 2 ''DsAL10Perc'' = Some (Num 0)
   \<and> accessibility_field one_file_calculator one_file_world 2 ''PsAL90Perc'' = Some (Num 0)"
proof -
  have h1: "od_line_files one_file_calculator \<noteq> []"
    by (simp add: one_file_calculator_def example_calculator_def)
  have h2: "\<forall>f \<in> set (od_line_files one_file_calculator). result_files one_file_world f \<noteq> None"
    by (simp add: one_file_calculator_def example_calculator_def one_file_world_def example_world_def)
  have h3: "2 \<in> set (origins_rows one_file_world)"
    by (simp add: one_file_world_def example_world_def)
  have h4: "\<forall>f \<in> set (od_line_files one_file_calculator).
      2 \<notin> fst ` set (pair_rows (result_files one_file_world) f)"
    by (simp add: one_file_calculator_def example_calculator_def one_file_world_def example_world_def
          pair_rows_def read_pairs_def)
  have n: "''TotalDests'' \<in> set field_names" "''PercDests'' \<in> set field_names"
      "''DsAL10Perc'' \<in> set field_names" "''PsAL90Perc'' \<in> set field_names"
    by (simp_all add: field_names_eval)
  show ?thesis
    using unreached_origin_zero[OF h1 h2 h3 h4 n(1)] unreached_origin_zero[OF h1 h2 h3 h4 n(2)]
      unreached_origin_zero[OF h1 h2 h3 h4 n(3)] unreached_origin_zero[OF h1 h2 h3 h4 n(4)]
    by simp
qed

text \<open>
  Claim C6 as stated, for every run, fails when no job of the run succeeds: the list of
  result files is empty, the accessibility aggregator is not run, and nothing is written
  onto Origins, so the origins 1 and 2 of the table have no statistics fields at all.
\<close>

theorem all_chunks_failed_counterexample:
  "tool (od_inputs all_failed_calculator) = CalculateAccessibilityMatrix
   \<and> origins_rows all_failed_world = [1, 2]
   \<and> od_line_files all_failed_calculator = []
   \<and> aggregated_output (solve_od_in_parallel keep_files None
        [Inr (failed_result ''job1''), Inr (failed_result ''job2'')]
        all_failed_calculator all_failed_world) = (None, None)"
proof -
  have s: "all_failed_calculator\<lparr>od_line_files := []\<rparr> = all_failed_calculator"
    by (simp add: all_failed_calculator_def example_calculator_def)
  have none: "filter solveSucceeded [failed_result ''job1'', failed_result ''job2''] = []"
    by (simp add: failed_result_def)
  have files: "od_line_files all_failed_calculator = []"
    by (simp add: all_failed_calculator_def example_calculator_def)
  have "aggregated_output (solve_od_in_parallel keep_files None
        (map Inr [failed_result ''job1'', failed_result ''job2''])
        all_failed_calculator all_failed_world) = (None, None)"
    by (simp add: solve_od_in_parallel_def validate_passes collect_returns none s
          post_process_def cleanup_def DELETE_INTERMEDIATE_OD_OUTPUTS_def log_main_def Let_def
          aggregated_output_def outputs_of_def all_failed_world_def example_world_def
          all_failed_calculator_def example_calculator_def failed_result_def)
  then show ?thesis
    by (simp add: all_failed_calculator_def example_calculator_def example_inputs_def
          all_failed_world_def example_world_def)
qed

text \<open>
  Claim C8 as stated, for every weight, fails when a weight is negative. Destination 7
  has weight -1 and is reached once, destination 8 has weight 2 and is reached twice, out
  of ten departure times. At p = 10 both qualify and the sum is 1; at p = 20 only
  destination 8 qualifies and the sum is 2.
\<close>

theorem decile_negative_weight_counterexample:
  "accessibility_field jobs_calculator (jobs_world (- 1) 2) 1 (total_field 10) = Some (Num 1)
   \<and> accessibility_field jobs_calculator (jobs_world (- 1) 2) 1 (total_field 20) = Some (Num 2)
   \<and> \<not> cell_le (Num 2) (Num 1)
   \<and> accessibility_field jobs_calculator (jobs_world (- 1) 2) 1 (perc_field 10) = Some (Num 100)
   \<and> accessibility_field jobs_calculator (jobs_world (- 1) 2) 1 (perc_field 20) = Some (Num 200)
   \<and> \<not> cell_le (Num 200) (Num 100)"
proof -
  have "accessibility_field jobs_calculator (jobs_world (- 1) 2) 1 (total_field 10) = Some (Num 1)"
    by code_simp
  moreover have "accessibility_field jobs_calculator (jobs_world (- 1) 2) 1 (total_field 20) = Some (Num 2)"
    by code_simp
  moreover have "accessibility_field jobs_calculator (jobs_world (- 1) 2) 1 (perc_field 10) = Some (Num 100)"
    by code_simp
  moreover have "accessibility_field jobs_calculator (jobs_world (- 1) 2) 1 (perc_field 20) = Some (Num 200)"
    by code_simp
  ultimately show ?thesis by simp
qed

text \<open>
  The same files with the weights 3 and 2: the sum is 5 at p = 10 and 2 at p = 20.
\<close>

theorem decile_monotone_witness:
  "accessibility_field jobs_calculator (jobs_world 3 2) 1 (total_field 10) = Some (Num 5)
   \<and> accessibility_field jobs_calculator (jobs_world 3 2) 1 (total_field 20) = Some (Num 2)
   \<and> cell_le (Num 2) (Num 5)
   \<and> accessibility_field jobs_calculator (jobs_world 3 2) 1 (perc_field 10) = Some (Num 100)
   \<and> accessibility_field jobs_calculator (jobs_world 3 2) 1 (perc_field 20) = Some (Num 40)
   \<and> cell_le (Num 40) (Num 100)"
proof -
  have h1: "od_line_files jobs_calculator \<noteq> []"
    by (simp add: jobs_calculator_def example_calculator_def)
  have h2: "\<forall>f \<in> set (od_line_files jobs_calculator). result_files (jobs_world 3 2) f \<noteq> None"
    by (simp add: jobs_calculator_def example_calculator_def jobs_world_def example_world_def)
  have h3: "\<forall>d \<in> set (destinations_rows (jobs_world 3 2)).
      0 \<le> skipna (snd d (weight_field jobs_calculator))"
    by (simp add: jobs_calculator_def example_calculator_def jobs_world_def example_world_def skipna_def)
  have h4: "1 \<in> set (origins_rows (jobs_world 3 2))"
    by (simp add: jobs_world_def example_world_def)
  have p: "10 \<in> set percs" "20 \<in> set percs" "(10::nat) \<le> 20" by (simp_all add: percs_def)
  have v: "accessibility_field jobs_calculator (jobs_world 3 2) 1 (total_field 10) = Some (Num 5)"
      "accessibility_field jobs_calculator (jobs_world 3 2) 1 (total_field 20) = Some (Num 2)"
      "accessibility_field jobs_calculator (jobs_world 3 2) 1 (perc_field 10) = Some (Num 100)"
      "accessibility_field jobs_calculator (jobs_world 3 2) 1 (perc_field 20) = Some (Num 40)"
    by code_simp+
  show ?thesis
    using decile_monotone[OF h1 h2 h3 h4 p] by (simp add: v)
qed

subsection \<open>Travel time statistics and whole runs\<close>

lemma example_file_names:
  "os_path_join ''C:/scratch/'' (out_filename (1, 2) (7, 8) (departure 0) @ ''.csv'') = travel_file_a"
  "os_path_join ''C:/scratch/'' (out_filename (1, 2) (7, 8) (departure 30) @ ''.csv'') = travel_file_b"
  "os_path_join ''C:/scratch/'' (out_filename (3, 4) (7, 8) (departure 0) @ ''.csv'') = travel_file_c"
  by (simp_all add: str_nat.simps digit_def str_int_def strftime_def departure_def zfill_def
        out_filename_def os_path_join_def is_sep_def travel_file_a_def travel_file_b_def travel_file_c_def)



text \<open>
  A solve for which the engine found no destinations.
\<close>

theorem failed_solve_is_routine_witness:
  "\<not> engine_succeeded failed_solve
   \<and> fst (solve_od_cost_matrix travel_inputs ''job1'' Map.empty failed_solve ((1, 2), (7, 8), departure 0))
      = \<lparr>jobId = ''job1'', solveSucceeded = False,
         solveMessages = ''No solution found.'' @ [CHR 0x0A] @ ''No destinations were found for 2 origins.'',
         outputLines = [], logFile = ''C:/scratch/ODCostMatrix_job1.log''\<rparr>
   \<and> snd (solve_od_cost_matrix travel_inputs ''job1'' Map.empty failed_solve ((1, 2), (7, 8), departure 0))
      = Map.empty
   \<and> aggregated_output (solve_od_in_parallel keep_files None
        [Inr (fst (solve_od_cost_matrix travel_inputs ''job1'' Map.empty failed_solve
                     ((1, 2), (7, 8), departure 0)))] travel_calculator travel_world)
      = aggregated_output (solve_od_in_parallel keep_files None [] travel_calculator travel_world)"
proof -
  have h: "\<not> engine_succeeded failed_solve" by (simp add: failed_solve_def)
  have v: "fst (solve_od_cost_matrix travel_inputs ''job1'' Map.empty failed_solve ((1, 2), (7, 8), departure 0))
      = \<lparr>jobId = ''job1'', solveSucceeded = False,
         solveMessages = ''No solution found.'' @ [CHR 0x0A] @ ''No destinations were found for 2 origins.'',
         outputLines = [], logFile = ''C:/scratch/ODCostMatrix_job1.log''\<rparr>"
    by code_simp
  note t = failed_solve_is_routine[OF h, of travel_inputs "''job1''" Map.empty "((1, 2), (7, 8), departure 0)"
        travel_calculator 0 travel_world "[]" keep_files None]
  from t have a: "snd (solve_od_cost_matrix travel_inputs ''job1'' Map.empty failed_solve ((1, 2), (7, 8), departure 0))
      = Map.empty" by blast
  from t have b: "aggregated_output (solve_od_in_parallel keep_files None
        [Inr (fst (solve_od_cost_matrix travel_inputs ''job1'' Map.empty failed_solve
                     ((1, 2), (7, 8), departure 0)))] travel_calculator travel_world)
      = aggregated_output (solve_od_in_parallel keep_files None [] travel_calculator travel_world)" by blast
  show ?thesis
    by (rule conjI[OF h conjI[OF v conjI[OF a b]]])
qed

text \<open>
  The retrieval of the second result raises.
\<close>

theorem result_error_is_fatal_witness:
  "\<exists>self' w' older.
     solve_od_in_parallel keep_files None
       [Inr (travel_result travel_file_a),
        Inl (Raised ''BrokenProcessPool'' [''Traceback (most recent call last):'', ''BrokenProcessPool'']),
        Inr (travel_result travel_file_b)] travel_calculator travel_world
       = Inl (Raised ''BrokenProcessPool'' [''Traceback (most recent call last):'', ''BrokenProcessPool''],
              self', w')
     \<and> LOGGER w' = older @ [(ERROR, result_error_message),
                             (ERROR, ''Traceback (most recent call last):''),
                             (ERROR, ''BrokenProcessPool'')]
     \<and> outputs_of w' = (None, None)"
proof -
  have o: "outputs_of travel_world = (None, None)"
    by (simp add: outputs_of_def travel_world_def)
  show ?thesis
    using result_error_is_fatal[of keep_files "[travel_result travel_file_a]"
        "Raised ''BrokenProcessPool'' [''Traceback (most recent call last):'', ''BrokenProcessPool'']"
        "[Inr (travel_result travel_file_b)]" travel_calculator travel_world]
    by (simp add: o)
qed

text \<open>
  A run of two jobs whose solves both failed.
\<close>

theorem no_result_file_warns_witness:
  "\<exists>w' new.
     solve_od_in_parallel keep_files None [Inr (failed_result ''job1''), Inr (failed_result ''job2'')]
        travel_calculator travel_world = Inr (travel_calculator, w')
     \<and> outputs_of w' = (None, None) \<and> io_trace w' = []
     \<and> LOGGER w' = new
     \<and> (WARNING, all_failed_warning) \<in> set new
     \<and> (INFO, accessibility_start_message) \<notin> set new
     \<and> (INFO, travel_time_start_message) \<notin> set new"
proof -
  have h1: "od_line_files travel_calculator = []" by (simp add: travel_calculator_def)
  have h2: "list_all (\<lambda>result. \<not> solveSucceeded result) [failed_result ''job1'', failed_result ''job2'']"
    by (simp add: failed_result_def)
  have o: "outputs_of travel_world = (None, None)" "io_trace travel_world = []" "LOGGER travel_world = []"
    by (simp_all add: outputs_of_def travel_world_def)
  show ?thesis
    using no_result_file_warns[OF h1 h2, of keep_files travel_world]
    by (simp add: o)
qed

end
